theory Spec2Isabelle
  imports Complex_Main "HOL-Library.AList"
begin

section \<open>Time source: \<open>getCurrentTime\<close>\<close>

text \<open>
  The clock reading \<open>new Date()\<close> is modelled by its local time value, the number of
  milliseconds since the epoch shifted by the zone offset, an integer of either sign.
  The three getters are the ECMAScript abstract operations \<open>HourFromTime\<close>,
  \<open>MinFromTime\<close> and \<open>SecFromTime\<close> applied to it (floor division, non-negative modulus).
\<close>

type_synonym Date = int

definition getHours :: "Date \<Rightarrow> nat" where
  "getHours now = nat ((now div 3600000) mod 24)"

definition getMinutes :: "Date \<Rightarrow> nat" where
  "getMinutes now = nat ((now div 60000) mod 60)"

definition getSeconds :: "Date \<Rightarrow> nat" where
  "getSeconds now = nat ((now div 1000) mod 60)"

definition digit_char :: "nat \<Rightarrow> char" where
  "digit_char d = char_of (48 + d)"

text \<open>\<open>String(n)\<close> on a non-negative integer: its decimal digits, no leading zero.\<close>

fun String_of_nat :: "nat \<Rightarrow> string" where
  "String_of_nat n =
     (if n < 10 then [digit_char n] else String_of_nat (n div 10) @ [digit_char (n mod 10)])"

declare String_of_nat.simps [simp del]

text \<open>
  \<open>s.padStart(targetLength, padString)\<close>: a string that is long enough, or an empty
  filler, leaves \<open>s\<close> as it is; otherwise the filler is repeated and cut to the missing
  length and put in front.
\<close>

definition padStart :: "nat \<Rightarrow> string \<Rightarrow> string \<Rightarrow> string" where
  "padStart targetLength padString s =
     (if targetLength \<le> length s \<or> padString = [] then s
      else take (targetLength - length s)
             (concat (replicate (targetLength - length s) padString)) @ s)"

definition getCurrentTime :: "Date \<Rightarrow> string" where
  "getCurrentTime now =
     (let hours = padStart 2 ''0'' (String_of_nat (getHours now));
          minutes = padStart 2 ''0'' (String_of_nat (getMinutes now));
          seconds = padStart 2 ''0'' (String_of_nat (getSeconds now))
      in hours @ '':'' @ minutes @ '':'' @ seconds)"

definition is_digit :: "char \<Rightarrow> bool" where
  "is_digit c = (c \<in> set ''0123456789'')"

text \<open>The shape \<open>HH:MM:SS\<close>: exactly eight characters, digits around two colons.\<close>

definition is_HHMMSS :: "string \<Rightarrow> bool" where
  "is_HHMMSS s =
     (case s of
        [h1, h2, c1, m1, m2, c2, s1, s2] \<Rightarrow>
          is_digit h1 \<and> is_digit h2 \<and> c1 = CHR '':'' \<and> is_digit m1 \<and> is_digit m2 \<and>
          c2 = CHR '':'' \<and> is_digit s1 \<and> is_digit s2
      | _ \<Rightarrow> False)"

section \<open>Setup wizard: \<open>prompt\<close> and the generated configuration\<close>

text \<open>
  A JavaScript number is NaN, an infinity, or a finite value, which is modelled by the
  real number it denotes. \<open>!x\<close> holds of NaN and of zero; \<open>x < y\<close> is false whenever
  NaN is involved.
\<close>

datatype jsnumber = NaN | Fin real | PosInfinity | NegInfinity

fun number_falsy :: "jsnumber \<Rightarrow> bool" where
  "number_falsy NaN = True"
| "number_falsy (Fin x) = (x = 0)"
| "number_falsy PosInfinity = False"
| "number_falsy NegInfinity = False"

fun number_less :: "jsnumber \<Rightarrow> real \<Rightarrow> bool" where
  "number_less NaN y = False"
| "number_less (Fin x) y = (x < y)"
| "number_less PosInfinity y = False"
| "number_less NegInfinity y = True"

text \<open>
  \<open>s.split(",")\<close>: the pieces between the separators, one more than there are
  separators, so the empty string gives one empty piece. The \<open>[]\<close> branch of the
  \<open>case\<close> is never taken, since the result is never empty.
\<close>

fun split_char :: "char \<Rightarrow> string \<Rightarrow> string list" where
  "split_char sep [] = [[]]"
| "split_char sep (c # cs) =
     (if c = sep then [] # split_char sep cs
      else (case split_char sep cs of [] \<Rightarrow> [[c]] | w # ws \<Rightarrow> (c # w) # ws))"

text \<open>
  \<open>s.trim()\<close> removes white space and line terminators from both ends. Characters are
  the code units below 256: tab, line feed, vertical tab, form feed, carriage return,
  space and the no-break space.
\<close>

definition is_js_whitespace :: "char \<Rightarrow> bool" where
  "is_js_whitespace c = (c \<in> set [CHR 0x09, CHR 0x0A, CHR 0x0B, CHR 0x0C, CHR 0x0D, CHR 0x20, CHR 0xA0])"

definition trim :: "string \<Rightarrow> string" where
  "trim s = rev (dropWhile is_js_whitespace (rev (dropWhile is_js_whitespace s)))"

definition endsWith :: "string \<Rightarrow> string \<Rightarrow> bool" where
  "endsWith s suffix = (length suffix \<le> length s \<and> drop (length s - length suffix) s = suffix)"

datatype module_type = Commonjs | Module

datatype rage_method = PAI | POU | NI

datatype database_type = MongoDB

text \<open>
  The answers record of the source. Its field \<open>method\<close> is named \<open>rageMethod\<close>
  here, the source's name being reserved.
\<close>

record promptFunctionReturnValues =
  projectName :: string
  dirPath :: string
  mainFile :: string
  moduleType :: module_type
  rageMethod :: rage_method
  interval :: "jsnumber option"
  databaseType :: database_type
  databaseSecret :: "string option"
  mongodbDatabasedbs :: "string list option"
  mongodbDatabaseExcludeCollections :: "string list option"
  outDir :: string

text \<open>
  What the user gives to each question of the wizard, in the order the questions are
  asked; \<open>input\<close> has already put its default in place of an empty line where the
  question has one.
\<close>

record answers =
  ans_projectName :: string
  ans_dirPath :: string
  ans_mainFile :: string
  ans_moduleType :: module_type
  ans_method :: rage_method
  ans_interval :: string
  ans_databaseType :: database_type
  ans_databaseSecret :: string
  ans_mongodbDatabasedbs :: string
  ans_mongodbDatabaseExcludeCollections :: string
  ans_outDir :: string

text \<open>\<open>process.exit(code)\<close>, with the line printed just before it.\<close>

datatype process_exit = Exit int string

definition initialReturnValues :: promptFunctionReturnValues where
  "initialReturnValues =
     \<lparr> projectName = '''', dirPath = ''.'', mainFile = ''index.js'', moduleType = Commonjs,
       rageMethod = PAI, interval = Some (Fin 600000), databaseType = MongoDB,
       databaseSecret = None, mongodbDatabasedbs = None,
       mongodbDatabaseExcludeCollections = None, outDir = ''.'' \<rparr>"

text \<open>
  The interval question (asked for the PAI strategy only). \<open>Number\<close> is the platform's
  conversion of the typed line to a number; it is a parameter of the model.
\<close>

definition prompt_interval ::
  "(string \<Rightarrow> jsnumber) \<Rightarrow> answers \<Rightarrow> promptFunctionReturnValues \<Rightarrow>
   process_exit + promptFunctionReturnValues" where
  "prompt_interval Number a returnValues =
     (if ans_method a = PAI then
        (let interval = Number (ans_interval a) in
         if number_falsy interval then
           Inl (Exit 1 ''Please enter a valid value and try again!'')
         else if number_less interval 5000 then
           Inl (Exit 1 ''The minimum interval should be above 5000 milliseconds!'')
         else Inr (returnValues\<lparr>interval := Some interval\<rparr>))
      else Inr returnValues)"

text \<open>The database questions: the secret, the whitelist and the blacklist.\<close>

definition prompt_database ::
  "answers \<Rightarrow> promptFunctionReturnValues \<Rightarrow> process_exit + promptFunctionReturnValues" where
  "prompt_database a returnValues =
     (let returnValues = returnValues\<lparr>databaseType := ans_databaseType a\<rparr> in
      if ans_databaseType a = MongoDB then
        (if ans_databaseSecret a \<noteq> [] then
           (let returnValues = returnValues\<lparr>databaseSecret := Some (ans_databaseSecret a)\<rparr>;
                mongodbDatabasedbs = map trim (split_char CHR '','' (ans_mongodbDatabasedbs a));
                returnValues = returnValues\<lparr>mongodbDatabasedbs := Some mongodbDatabasedbs\<rparr>;
                mongodbDatabaseExcludeCollections =
                  map trim (split_char CHR '','' (ans_mongodbDatabaseExcludeCollections a))
            in Inr (returnValues\<lparr>mongodbDatabaseExcludeCollections :=
                      Some mongodbDatabaseExcludeCollections\<rparr>))
         else Inl (Exit 1
           ''Please enter the database secret key (MongoDB URI) properly and try again!''))
      else Inr returnValues)"

definition prompt_outDir ::
  "answers \<Rightarrow> promptFunctionReturnValues \<Rightarrow> process_exit + promptFunctionReturnValues" where
  "prompt_outDir a returnValues =
     (if ans_outDir a \<noteq> [] then Inr (returnValues\<lparr>outDir := ans_outDir a\<rparr>)
      else Inl (Exit 1 ''Please enter the directory path properly and try again!''))"

definition prompt ::
  "(string \<Rightarrow> jsnumber) \<Rightarrow> answers \<Rightarrow> process_exit + promptFunctionReturnValues" where
  "prompt Number a =
     (let returnValues = initialReturnValues in
      if ans_projectName a \<noteq> [] then
        (let returnValues = returnValues\<lparr>projectName := ans_projectName a\<rparr> in
         if ans_dirPath a \<noteq> [] then
           (let returnValues = returnValues\<lparr>dirPath := ans_dirPath a\<rparr> in
            if ans_mainFile a \<noteq> [] \<and> endsWith (ans_mainFile a) ''.js'' then
              (let returnValues = returnValues\<lparr>mainFile := ans_mainFile a\<rparr>;
                   returnValues = returnValues\<lparr>moduleType := ans_moduleType a\<rparr>;
                   returnValues = returnValues\<lparr>rageMethod := ans_method a\<rparr>
               in case prompt_interval Number a returnValues of
                    Inl e \<Rightarrow> Inl e
                  | Inr returnValues \<Rightarrow>
                      (case prompt_database a returnValues of
                         Inl e \<Rightarrow> Inl e
                       | Inr returnValues \<Rightarrow> prompt_outDir a returnValues))
            else Inl (Exit 1
              ''Please enter a valid file name with .js extension and try again!''))
         else Inl (Exit 1 ''Please enter the working directory properly and try again!''))
      else Inl (Exit 1
        ''Please enter a valid name for the application/project and try again!''))"

text \<open>The object that \<open>createFiles\<close> serialises into \<open>rage.config.json\<close>.\<close>

record dbSpecificSettings =
  dbs :: "string list option"
  excludeCollections :: "string list option"

record database_settings =
  db_type :: database_type
  secretKey :: "string option"
  dbSpecific :: dbSpecificSettings

record rageConfig =
  cfg_method :: rage_method
  cfg_interval :: "jsnumber option"
  cfg_database :: database_settings
  cfg_outDir :: string

definition rageConfigFileData :: "promptFunctionReturnValues \<Rightarrow> rageConfig" where
  "rageConfigFileData configSettings =
     \<lparr> cfg_method = rageMethod configSettings,
       cfg_interval = interval configSettings,
       cfg_database =
         \<lparr> db_type = databaseType configSettings,
           secretKey = databaseSecret configSettings,
           dbSpecific =
             \<lparr> dbs = mongodbDatabasedbs configSettings,
               excludeCollections = mongodbDatabaseExcludeCollections configSettings \<rparr> \<rparr>,
       cfg_outDir = outDir configSettings \<rparr>"

text \<open>A complete set of answers, used to run the wizard on concrete input.\<close>

definition example_answers :: "string \<Rightarrow> string \<Rightarrow> string \<Rightarrow> answers" where
  "example_answers i w b =
     \<lparr> ans_projectName = ''backup'', ans_dirPath = ''.'', ans_mainFile = ''index.js'',
       ans_moduleType = Commonjs, ans_method = PAI, ans_interval = i,
       ans_databaseType = MongoDB, ans_databaseSecret = ''mongodb://localhost'',
       ans_mongodbDatabasedbs = w, ans_mongodbDatabaseExcludeCollections = b,
       ans_outDir = ''out'' \<rparr>"

section \<open>Scope resolver\<close>

type_synonym SyncTarget = "string \<times> string"

text \<open>
  Modelled from the spec: the remote schema as the database capability reports it
  (\<open>listDatabases\<close>, \<open>listCollections\<close>), every database name with the names of
  its collections, both in the order of the source; and the targets it holds.
\<close>

type_synonym remote_schema = "(string \<times> string list) list"

definition schema_targets :: "remote_schema \<Rightarrow> SyncTarget list" where
  "schema_targets availableDatabases =
     concat (map (\<lambda>(db, collections). map (Pair db) collections) availableDatabases)"

text \<open>
  Modelled from the spec: the function \<open>resolve\<close> of the scope resolver, which is not
  among the source files (only the type of its configuration, \<open>PushAfterIntervalArguments\<close>,
  is). For each database of \<open>availableDatabases\<close> that is a member of the whitelist,
  its collections are enumerated, and the pair \<open>(db, collection)\<close> is emitted unless that
  exact pair is a member of the blacklist; the order is that of the source.
\<close>

definition resolve :: "string list \<Rightarrow> SyncTarget list \<Rightarrow> remote_schema \<Rightarrow> SyncTarget list" where
  "resolve databaseWhitelist collectionBlacklist availableDatabases =
     concat (map (\<lambda>(db, collections).
                    if db \<in> set databaseWhitelist
                    then map (Pair db)
                           (filter (\<lambda>collection. (db, collection) \<notin> set collectionBlacklist)
                              collections)
                    else [])
               availableDatabases)"

text \<open>
  Modelled from the spec: an entry \<open>"db/col"\<close> of \<open>excludeCollections\<close> is split into
  the pair \<open>(db, col)\<close>, here at its first slash (a database name holds none).
\<close>

definition split_exclude_entry :: "string \<Rightarrow> SyncTarget" where
  "split_exclude_entry entry =
     (takeWhile (\<lambda>c. c \<noteq> CHR ''/'') entry, drop 1 (dropWhile (\<lambda>c. c \<noteq> CHR ''/'') entry))"

section \<open>JavaScript values and \<open>JSON.stringify\<close>\<close>

text \<open>
  The payload \<open>dataToWrite\<close> is a JavaScript value. The model has the values that
  \<open>JSON.stringify\<close> tells apart: \<open>undefined\<close> (functions and symbols are treated like
  it), \<open>null\<close>, booleans, numbers, strings, BigInts, arrays and plain objects (the
  properties in enumeration order). A finite number is modelled by an integer, printed
  in decimal as \<open>Number::toString\<close> prints every integral value below \<open>10^21\<close>;
  \<open>JSNonFinite\<close> stands for NaN and the two infinities. A string is a list of code
  units below 256. Cyclic structures, \<open>toJSON\<close> methods and fractional numbers are
  outside the model.
\<close>

datatype jsvalue =
    JSUndefined
  | JSNull
  | JSBoolean bool
  | JSNumber int
  | JSNonFinite
  | JSString string
  | JSBigInt int
  | JSArray "jsvalue list"
  | JSObject "(string \<times> jsvalue) list"

datatype errno = ENOENT | ENOTDIR | EEXIST | EISDIR

datatype js_error =
    TypeError string
  | InvalidArgValue string
  | SystemError errno string

definition NumberToString :: "int \<Rightarrow> string" where
  "NumberToString n =
     (if n < 0 then CHR ''-'' # String_of_nat (nat (- n)) else String_of_nat (nat n))"

definition hex_char :: "nat \<Rightarrow> char" where
  "hex_char d = (if d < 10 then char_of (48 + d) else char_of (87 + d))"

text \<open>
  \<open>QuoteJSONString\<close>: the quotation mark and the backslash are escaped, backspace, tab,
  line feed, form feed and carriage return have their two-character escapes, every other
  code unit below \<open>0x20\<close> is written \<open>\u00XX\<close> with lower-case hexadecimal digits, and
  the rest is copied.
\<close>

definition QuoteJSONString_unit :: "char \<Rightarrow> string" where
  "QuoteJSONString_unit c =
     (if c = CHR 0x08 then [CHR 0x5C, CHR ''b'']
      else if c = CHR 0x09 then [CHR 0x5C, CHR ''t'']
      else if c = CHR 0x0A then [CHR 0x5C, CHR ''n'']
      else if c = CHR 0x0C then [CHR 0x5C, CHR ''f'']
      else if c = CHR 0x0D then [CHR 0x5C, CHR ''r'']
      else if c = CHR 0x22 then [CHR 0x5C, CHR 0x22]
      else if c = CHR 0x5C then [CHR 0x5C, CHR 0x5C]
      else if (of_char c :: nat) < 0x20 then
        [CHR 0x5C, CHR ''u'', CHR ''0'', CHR ''0'',
         hex_char ((of_char c :: nat) div 16), hex_char ((of_char c :: nat) mod 16)]
      else [c])"

definition QuoteJSONString :: "string \<Rightarrow> string" where
  "QuoteJSONString s = CHR 0x22 # concat (map QuoteJSONString_unit s) @ [CHR 0x22]"

text \<open>\<open>Array.prototype.join\<close> on strings.\<close>

fun join_with :: "string \<Rightarrow> string list \<Rightarrow> string" where
  "join_with sep [] = []"
| "join_with sep [x] = x"
| "join_with sep (x # y # ys) = x @ sep @ join_with sep (y # ys)"

text \<open>
  The serialisation of ECMAScript, with the indentation unit \<open>gap\<close> and the current
  indentation \<open>indent\<close>. \<open>SerializeJSONProperty\<close> gives \<open>None\<close> for \<open>undefined\<close>
  (the value has no JSON text) and throws a TypeError on a BigInt. In an array a value
  without text is written \<open>null\<close>; in an object its property is left out.
\<close>

fun SerializeJSONProperty :: "string \<Rightarrow> string \<Rightarrow> jsvalue \<Rightarrow> js_error + string option"
  and SerializeJSONArray_elements :: "string \<Rightarrow> string \<Rightarrow> jsvalue list \<Rightarrow> js_error + string list"
  and SerializeJSONObject_members ::
    "string \<Rightarrow> string \<Rightarrow> (string \<times> jsvalue) list \<Rightarrow> js_error + string list"
where
  "SerializeJSONProperty gap indent JSUndefined = Inr None"
| "SerializeJSONProperty gap indent JSNull = Inr (Some ''null'')"
| "SerializeJSONProperty gap indent (JSBoolean b) = Inr (Some (if b then ''true'' else ''false''))"
| "SerializeJSONProperty gap indent (JSNumber n) = Inr (Some (NumberToString n))"
| "SerializeJSONProperty gap indent JSNonFinite = Inr (Some ''null'')"
| "SerializeJSONProperty gap indent (JSString s) = Inr (Some (QuoteJSONString s))"
| "SerializeJSONProperty gap indent (JSBigInt n) =
     Inl (TypeError ''Do not know how to serialize a BigInt'')"
| "SerializeJSONProperty gap indent (JSArray elements) =
     (case SerializeJSONArray_elements gap (indent @ gap) elements of
        Inl e \<Rightarrow> Inl e
      | Inr partial \<Rightarrow>
          Inr (Some
            (if partial = [] then ''[]''
             else if gap = [] then ''['' @ join_with '','' partial @ '']''
             else ''['' @ [CHR 0x0A] @ (indent @ gap)
                  @ join_with ('','' @ [CHR 0x0A] @ (indent @ gap)) partial
                  @ [CHR 0x0A] @ indent @ '']'')))"
| "SerializeJSONProperty gap indent (JSObject properties) =
     (case SerializeJSONObject_members gap (indent @ gap) properties of
        Inl e \<Rightarrow> Inl e
      | Inr partial \<Rightarrow>
          Inr (Some
            (if partial = [] then ''{}''
             else if gap = [] then ''{'' @ join_with '','' partial @ ''}''
             else ''{'' @ [CHR 0x0A] @ (indent @ gap)
                  @ join_with ('','' @ [CHR 0x0A] @ (indent @ gap)) partial
                  @ [CHR 0x0A] @ indent @ ''}'')))"
| "SerializeJSONArray_elements gap indent [] = Inr []"
| "SerializeJSONArray_elements gap indent (v # vs) =
     (case SerializeJSONProperty gap indent v of
        Inl e \<Rightarrow> Inl e
      | Inr strP \<Rightarrow>
          (case SerializeJSONArray_elements gap indent vs of
             Inl e \<Rightarrow> Inl e
           | Inr partial \<Rightarrow>
               Inr ((case strP of None \<Rightarrow> ''null'' | Some s \<Rightarrow> s) # partial)))"
| "SerializeJSONObject_members gap indent [] = Inr []"
| "SerializeJSONObject_members gap indent (p # ps) =
     (case SerializeJSONProperty gap indent (snd p) of
        Inl e \<Rightarrow> Inl e
      | Inr strP \<Rightarrow>
          (case SerializeJSONObject_members gap indent ps of
             Inl e \<Rightarrow> Inl e
           | Inr partial \<Rightarrow>
               (case strP of
                  None \<Rightarrow> Inr partial
                | Some s \<Rightarrow>
                    Inr ((QuoteJSONString (fst p) @ '':'' @ (if gap = [] then [] else '' '') @ s)
                         # partial))))"

text \<open>
  \<open>JSON.stringify(value, null, space)\<close> with a numeric \<open>space\<close>: the indentation unit
  is that many spaces, ten at most.
\<close>

definition JSON_stringify :: "jsvalue \<Rightarrow> nat \<Rightarrow> js_error + string option" where
  "JSON_stringify v space = SerializeJSONProperty (replicate (min 10 space) CHR '' '') [] v"

section \<open>\<open>JSON.parse\<close>, to read a written file back\<close>

text \<open>
  The white space of the JSON grammar: space, tab, line feed and carriage return.
\<close>

definition is_json_ws :: "char \<Rightarrow> bool" where
  "is_json_ws c = (c = CHR 0x20 \<or> c = CHR 0x09 \<or> c = CHR 0x0A \<or> c = CHR 0x0D)"

definition skip_ws :: "string \<Rightarrow> string" where
  "skip_ws s = dropWhile is_json_ws s"















section \<open>Paths: \<open>path.join\<close> (POSIX)\<close>

text \<open>
  \<open>normalizeString\<close> of Node's \<open>path\<close> module, on the list of the segments between
  the slashes: empty segments and \<open>.\<close> are dropped; \<open>..\<close> removes the segment before
  it, unless there is none or it is \<open>..\<close> itself, in which case \<open>..\<close> is kept when the
  path is relative and dropped when it is absolute.
\<close>

definition normalizeString_step :: "bool \<Rightarrow> string list \<Rightarrow> string \<Rightarrow> string list" where
  "normalizeString_step allowAboveRoot res seg =
     (if seg = [] \<or> seg = ''.'' then res
      else if seg = ''..'' then
        (if res \<noteq> [] \<and> last res \<noteq> ''..'' then butlast res
         else if allowAboveRoot then res @ [''..'']
         else res)
      else res @ [seg])"

definition normalizeString :: "bool \<Rightarrow> string list \<Rightarrow> string list" where
  "normalizeString allowAboveRoot segs = foldl (normalizeString_step allowAboveRoot) [] segs"

definition isAbsolute :: "string \<Rightarrow> bool" where
  "isAbsolute p = (case p of [] \<Rightarrow> False | c # _ \<Rightarrow> c = CHR ''/'')"

definition trailingSeparator :: "string \<Rightarrow> bool" where
  "trailingSeparator p = (p \<noteq> [] \<and> last p = CHR ''/'')"

definition path_normalize :: "string \<Rightarrow> string" where
  "path_normalize p =
     (if p = [] then ''.''
      else
        (let segs = normalizeString (\<not> isAbsolute p) (split_char CHR ''/'' p) in
         if segs = [] then
           (if isAbsolute p then ''/'' else if trailingSeparator p then ''./'' else ''.'')
         else
           (if isAbsolute p then ''/'' else []) @ join_with ''/'' segs
           @ (if trailingSeparator p then ''/'' else [])))"

text \<open>\<open>path.join(...paths)\<close>: the non-empty arguments joined by slashes, normalised.\<close>

definition path_join :: "string list \<Rightarrow> string" where
  "path_join paths =
     (let joined = join_with ''/'' (filter (\<lambda>arg. arg \<noteq> []) paths) in
      if joined = [] then ''.'' else path_normalize joined)"

section \<open>The file system and the console\<close>

text \<open>
  A location is the list of names from the root directory. The file system maps the
  locations that exist to a directory or to a regular file with its content. Symbolic
  links, permissions and quotas are not modelled: an operation fails only for the
  structural reasons \<open>ENOENT\<close>, \<open>ENOTDIR\<close>, \<open>EEXIST\<close> and \<open>EISDIR\<close>.
\<close>

type_synonym location = "string list"

datatype node = Directory | RegularFile string

datatype fs_call =
    ExistsSync string
  | MkdirSync string
  | WriteFileSync string "string option"

datatype console_line = ConsoleLog string | ConsoleError js_error

text \<open>
  The world a call runs in: the file system, the working directory of the process, the
  clock, what has been printed on the console, and the calls made to \<open>fs\<close>, oldest first.
\<close>

record world =
  entries :: "location \<Rightarrow> node option"
  cwd :: location
  clock :: Date
  console :: "console_line list"
  fs_calls :: "fs_call list"

text \<open>
  Path resolution as the kernel does it: every segment is looked up in the directory
  reached so far, which must exist and be a directory; an empty segment and \<open>.\<close> stay
  there, \<open>..\<close> goes to the parent (the root is its own parent).
\<close>

fun walk :: "(location \<Rightarrow> node option) \<Rightarrow> location \<Rightarrow> string list \<Rightarrow> errno + location" where
  "walk fs cur [] = Inr cur"
| "walk fs cur (seg # segs) =
     (case fs cur of
        None \<Rightarrow> Inl ENOENT
      | Some (RegularFile content) \<Rightarrow> Inl ENOTDIR
      | Some Directory \<Rightarrow>
          (if seg = [] \<or> seg = ''.'' then walk fs cur segs
           else if seg = ''..'' then walk fs (butlast cur) segs
           else walk fs (cur @ [seg]) segs))"

definition start_of :: "world \<Rightarrow> string \<Rightarrow> location" where
  "start_of w p = (if isAbsolute p then [] else cwd w)"

text \<open>The location a path names, when every directory on the way exists.\<close>

definition locate :: "world \<Rightarrow> string \<Rightarrow> errno + location" where
  "locate w p = (if p = [] then Inl ENOENT else walk (entries w) (start_of w p) (split_char CHR ''/'' p))"

definition node_at :: "world \<Rightarrow> string \<Rightarrow> node option" where
  "node_at w p = (case locate w p of Inl e \<Rightarrow> None | Inr loc \<Rightarrow> entries w loc)"

text \<open>A path with a NUL character is refused by every operation of \<open>fs\<close>.\<close>

definition has_nul :: "string \<Rightarrow> bool" where
  "has_nul p = (CHR 0x00 \<in> set p)"

definition is_directory :: "world \<Rightarrow> string \<Rightarrow> bool" where
  "is_directory w p = (\<not> has_nul p \<and> node_at w p = Some Directory)"


text \<open>\<open>fs.existsSync(path)\<close>: whether the path can be resolved; never throws.\<close>

definition existsSync :: "string \<Rightarrow> world \<Rightarrow> bool \<times> world" where
  "existsSync p w =
     (\<not> has_nul p \<and> node_at w p \<noteq> None, w\<lparr>fs_calls := fs_calls w @ [ExistsSync p]\<rparr>)"

text \<open>The segments of a path without its trailing slashes.\<close>

definition strip_trailing :: "string list \<Rightarrow> string list" where
  "strip_trailing segs = rev (dropWhile (\<lambda>seg. seg = []) (rev segs))"

text \<open>
  \<open>fs.mkdirSync(path)\<close> without the \<open>recursive\<close> option: the parent must be an
  existing directory and the last name must be new.
\<close>

definition mkdirSync :: "string \<Rightarrow> world \<Rightarrow> (js_error + unit) \<times> world" where
  "mkdirSync p w =
     (let w1 = w\<lparr>fs_calls := fs_calls w @ [MkdirSync p]\<rparr>;
          segs = strip_trailing (split_char CHR ''/'' p)
      in if has_nul p then (Inl (InvalidArgValue p), w1)
         else if p = [] then (Inl (SystemError ENOENT p), w1)
         else if segs = [] then (Inl (SystemError EEXIST p), w1)
         else
           (case walk (entries w) (start_of w p) (butlast segs) of
              Inl e \<Rightarrow> (Inl (SystemError e p), w1)
            | Inr parent \<Rightarrow>
                (case entries w parent of
                   None \<Rightarrow> (Inl (SystemError ENOENT p), w1)
                 | Some (RegularFile content) \<Rightarrow> (Inl (SystemError ENOTDIR p), w1)
                 | Some Directory \<Rightarrow>
                     (if last segs = ''.'' \<or> last segs = ''..'' then (Inl (SystemError EEXIST p), w1)
                      else if entries w (parent @ [last segs]) \<noteq> None
                      then (Inl (SystemError EEXIST p), w1)
                      else (Inr (),
                            w1\<lparr>entries := (entries w)(parent @ [last segs] \<mapsto> Directory)\<rparr>)))))"

text \<open>
  \<open>fs.writeFileSync(path, data, "utf-8")\<close>: data that is not a string is refused before
  the file system is touched; otherwise the file is created or replaced as a whole. The
  parent must be an existing directory and the path must not name a directory.
\<close>

definition writeFileSync :: "string \<Rightarrow> string option \<Rightarrow> world \<Rightarrow> (js_error + unit) \<times> world" where
  "writeFileSync p data w =
     (let w1 = w\<lparr>fs_calls := fs_calls w @ [WriteFileSync p data]\<rparr>;
          segs = split_char CHR ''/'' p
      in case data of
           None \<Rightarrow> (Inl (TypeError ''The data argument must be of type string''), w1)
         | Some content \<Rightarrow>
             (if has_nul p then (Inl (InvalidArgValue p), w1)
              else if p = [] then (Inl (SystemError ENOENT p), w1)
              else
                (case walk (entries w) (start_of w p) (butlast segs) of
                   Inl e \<Rightarrow> (Inl (SystemError e p), w1)
                 | Inr parent \<Rightarrow>
                     (case entries w parent of
                        None \<Rightarrow> (Inl (SystemError ENOENT p), w1)
                      | Some (RegularFile other) \<Rightarrow> (Inl (SystemError ENOTDIR p), w1)
                      | Some Directory \<Rightarrow>
                          (if last segs = [] \<or> last segs = ''.'' \<or> last segs = ''..''
                           then (Inl (SystemError EISDIR p), w1)
                           else if entries w (parent @ [last segs]) = Some Directory
                           then (Inl (SystemError EISDIR p), w1)
                           else (Inr (),
                                 w1\<lparr>entries :=
                                      (entries w)(parent @ [last segs] \<mapsto> RegularFile content)\<rparr>))))))"

text \<open>\<open>fs.readFileSync(path, "utf-8")\<close>, to read a written file back.\<close>

definition readFileSync :: "string \<Rightarrow> world \<Rightarrow> js_error + string" where
  "readFileSync p w =
     (if has_nul p then Inl (InvalidArgValue p)
      else
        (case locate w p of
           Inl e \<Rightarrow> Inl (SystemError e p)
         | Inr loc \<Rightarrow>
             (case entries w loc of
                None \<Rightarrow> Inl (SystemError ENOENT p)
              | Some Directory \<Rightarrow> Inl (SystemError EISDIR p)
              | Some (RegularFile content) \<Rightarrow> Inr content)))"

definition console_log :: "string \<Rightarrow> world \<Rightarrow> world" where
  "console_log line w = w\<lparr>console := console w @ [ConsoleLog line]\<rparr>"

definition console_error :: "js_error \<Rightarrow> world \<Rightarrow> world" where
  "console_error e w = w\<lparr>console := console w @ [ConsoleError e]\<rparr>"

section \<open>File writer: \<open>writeJsonFiles\<close>\<close>

record writeJsonFilesArguments =
  dirPath :: string
  fileName :: string
  databaseName :: string
  dataToWrite :: jsvalue

text \<open>What the function returns: the final path, or \<open>false\<close>.\<close>

datatype write_result = ReturnedPath string | ReturnedFalse

definition folderPath_of :: "writeJsonFilesArguments \<Rightarrow> string" where
  "folderPath_of args = path_join [dirPath args, databaseName args]"

definition finalFilePath_of :: "writeJsonFilesArguments \<Rightarrow> string" where
  "finalFilePath_of args = path_join [dirPath args, databaseName args, fileName args] @ ''.json''"

text \<open>
  The line printed after the directory is made; it carries the time. Its leading
  pictograph is left out.
\<close>

definition directory_created :: "Date \<Rightarrow> string \<Rightarrow> string" where
  "directory_created now folderPath =
     ''|['' @ getCurrentTime now @ '']| Directory created: '' @ folderPath"

text \<open>
  The body of the \<open>try\<close> block, statement by statement: a thrown error ends it with
  \<open>Inl\<close>, together with the world as the statements before the throw left it.
\<close>

definition writeJsonFiles_try ::
  "writeJsonFilesArguments \<Rightarrow> world \<Rightarrow> (js_error + string) \<times> world" where
  "writeJsonFiles_try args w =
     (let folderPath = folderPath_of args;
          finalFilePath = finalFilePath_of args
      in case JSON_stringify (dataToWrite args) 2 of
           Inl e \<Rightarrow> (Inl e, w)
         | Inr convertedJsonData \<Rightarrow>
             (case existsSync folderPath w of
                (True, w1) \<Rightarrow>
                  (case writeFileSync finalFilePath convertedJsonData w1 of
                     (Inl e, w2) \<Rightarrow> (Inl e, w2)
                   | (Inr u, w2) \<Rightarrow> (Inr finalFilePath, w2))
              | (False, w1) \<Rightarrow>
                  (case mkdirSync folderPath w1 of
                     (Inl e, w2) \<Rightarrow> (Inl e, w2)
                   | (Inr u, w2) \<Rightarrow>
                       (let w3 = console_log (directory_created (clock w2) folderPath) w2
                        in case writeFileSync finalFilePath convertedJsonData w3 of
                             (Inl e, w4) \<Rightarrow> (Inl e, w4)
                           | (Inr u, w4) \<Rightarrow> (Inr finalFilePath, w4)))))"

text \<open>
  The whole function: the \<open>catch\<close> clause prints the error and returns \<open>false\<close>. The
  result is \<open>Inl\<close> when an error leaves the function, \<open>Inr\<close> when it returns.
\<close>

definition writeJsonFiles ::
  "writeJsonFilesArguments \<Rightarrow> world \<Rightarrow> js_error + (write_result \<times> world)" where
  "writeJsonFiles args w =
     (case writeJsonFiles_try args w of
        (Inr finalFilePath, w') \<Rightarrow> Inr (ReturnedPath finalFilePath, w')
      | (Inl error, w') \<Rightarrow> Inr (ReturnedFalse, console_error error w'))"

text \<open>
  A plain name is one path segment that names an entry: not empty, not \<open>.\<close> or \<open>..\<close>,
  without a slash and without a NUL character.
\<close>

definition plain_name :: "string \<Rightarrow> bool" where
  "plain_name n = (n \<noteq> [] \<and> n \<noteq> ''.'' \<and> n \<noteq> ''..'' \<and> CHR ''/'' \<notin> set n \<and> CHR 0x00 \<notin> set n)"


text \<open>The segments \<open>path.join\<close> keeps of its first argument, and the leading slash.\<close>

definition normal_segments :: "string \<Rightarrow> string list" where
  "normal_segments d = normalizeString (\<not> isAbsolute d) (split_char CHR ''/'' d)"

definition root_prefix :: "string \<Rightarrow> string" where
  "root_prefix d = (if isAbsolute d then ''/'' else [])"

text \<open>The segments in front of them when the path is split: an empty one for the root.\<close>

definition lead :: "string \<Rightarrow> string list" where
  "lead d = (if isAbsolute d then [[]] else [])"

section \<open>Concrete inputs\<close>

text \<open>
  A small world: the process runs in \<open>/home\<close>, where the directory \<open>out\<close> exists and
  is empty; and a call that writes one document of the collection \<open>users\<close> of the
  database \<open>shop\<close> under \<open>out\<close>.
\<close>

definition example_world :: world where
  "example_world =
     \<lparr> entries = [[] \<mapsto> Directory, [''home''] \<mapsto> Directory, [''home'', ''out''] \<mapsto> Directory],
       cwd = [''home''], clock = 1234567, console = [], fs_calls = [] \<rparr>"

definition example_snapshot :: jsvalue where
  "example_snapshot = JSArray [JSObject [(''_id'', JSNumber 1), (''name'', JSString ''a'')]]"

definition example_args :: writeJsonFilesArguments where
  "example_args =
     \<lparr> dirPath = ''out'', fileName = ''users'', databaseName = ''shop'',
       dataToWrite = example_snapshot \<rparr>"

text \<open>The text \<open>JSON.stringify\<close> gives for the snapshot, four lines with the line feeds.\<close>

definition example_payload :: string where
  "example_payload =
     ''['' @ [CHR 0x0A] @ ''  {'' @ [CHR 0x0A]
     @ ''    '' @ [CHR 0x22] @ ''_id'' @ [CHR 0x22] @ '': 1,'' @ [CHR 0x0A]
     @ ''    '' @ [CHR 0x22] @ ''name'' @ [CHR 0x22] @ '': '' @ [CHR 0x22] @ ''a'' @ [CHR 0x22]
     @ [CHR 0x0A] @ ''  }'' @ [CHR 0x0A] @ '']''"

section \<open>Properties of the time source\<close>

lemma digit_char_table: "map digit_char [0..<10] = ''0123456789''"
  by code_simp

lemma digit_char_nth: "d < 10 \<Longrightarrow> digit_char d = ''0123456789'' ! d"
proof -
  assume d: "d < 10"
  then have "map digit_char [0..<10] ! d = digit_char d"
    by (simp del: upt_Suc)
  then show ?thesis
    by (simp only: digit_char_table)
qed

lemma is_digit_digit_char: "d < 10 \<Longrightarrow> is_digit (digit_char d)"
proof -
  assume d: "d < 10"
  then have "''0123456789'' ! d \<in> set ''0123456789''"
    by (intro nth_mem) simp
  then show ?thesis
    using d by (simp only: is_digit_def digit_char_nth)
qed

lemma two_digits:
  assumes "n < 100"
  shows "\<exists>a b. padStart 2 ''0'' (String_of_nat n) = [a, b] \<and> is_digit a \<and> is_digit b"
proof (cases "n < 10")
  case True
  then have "String_of_nat n = [digit_char n]"
    by (subst String_of_nat.simps) simp
  then have "padStart 2 ''0'' (String_of_nat n) = [CHR ''0'', digit_char n]"
    by (simp add: padStart_def)
  moreover have "is_digit (CHR ''0'')" by (simp add: is_digit_def)
  ultimately show ?thesis using True is_digit_digit_char by blast
next
  case False
  with assms have d: "n div 10 < 10" "n mod 10 < 10" by auto
  have "String_of_nat n = String_of_nat (n div 10) @ [digit_char (n mod 10)]"
    using False by (subst String_of_nat.simps) simp
  also have "String_of_nat (n div 10) = [digit_char (n div 10)]"
    using d by (subst String_of_nat.simps) simp
  finally have "padStart 2 ''0'' (String_of_nat n) = [digit_char (n div 10), digit_char (n mod 10)]"
    by (simp add: padStart_def)
  then show ?thesis using d is_digit_digit_char by blast
qed

lemma getHours_bound: "getHours now < 100"
  unfolding getHours_def by simp

lemma getMinutes_bound: "getMinutes now < 100"
  unfolding getMinutes_def by simp

lemma getSeconds_bound: "getSeconds now < 100"
  unfolding getSeconds_def by simp

text \<open>
  Claim C9. For every clock reading, \<open>getCurrentTime\<close> returns a string of the shape
  \<open>HH:MM:SS\<close>: three two-digit, zero-padded decimal fields separated by colons, and
  therefore exactly eight characters.
\<close>

theorem getCurrentTime_shape:
  "is_HHMMSS (getCurrentTime now) \<and> length (getCurrentTime now) = 8"
proof -
  obtain h1 h2 where h:
    "padStart 2 ''0'' (String_of_nat (getHours now)) = [h1, h2]" "is_digit h1" "is_digit h2"
    using two_digits [OF getHours_bound] by blast
  obtain m1 m2 where m:
    "padStart 2 ''0'' (String_of_nat (getMinutes now)) = [m1, m2]" "is_digit m1" "is_digit m2"
    using two_digits [OF getMinutes_bound] by blast
  obtain s1 s2 where s:
    "padStart 2 ''0'' (String_of_nat (getSeconds now)) = [s1, s2]" "is_digit s1" "is_digit s2"
    using two_digits [OF getSeconds_bound] by blast
  from h m s show ?thesis
    by (simp add: getCurrentTime_def is_HHMMSS_def)
qed

section \<open>Properties of the setup wizard\<close>

lemma split_char_not_Nil: "split_char sep s \<noteq> []"
  by (induction s) (auto split: list.splits)

lemma prompt_Inr_stages:
  assumes "prompt Number a = Inr rv"
  obtains r1 r2 where
    "ans_projectName a \<noteq> []" "ans_dirPath a \<noteq> []"
    "ans_mainFile a \<noteq> []" "endsWith (ans_mainFile a) ''.js''"
    "prompt_interval Number a
       (initialReturnValues\<lparr>projectName := ans_projectName a,
          promptFunctionReturnValues.dirPath := ans_dirPath a,
          mainFile := ans_mainFile a, moduleType := ans_moduleType a,
          rageMethod := ans_method a\<rparr>) = Inr r1"
    "prompt_database a r1 = Inr r2" "prompt_outDir a r2 = Inr rv"
  using assms
  by (auto simp: prompt_def Let_def split: if_splits sum.splits)

lemma prompt_database_lists:
  assumes "prompt_database a r1 = Inr r2"
  shows "mongodbDatabasedbs r2 = Some (map trim (split_char CHR '','' (ans_mongodbDatabasedbs a)))"
    and "mongodbDatabaseExcludeCollections r2 =
           Some (map trim (split_char CHR '','' (ans_mongodbDatabaseExcludeCollections a)))"
proof -
  have m: "ans_databaseType a = MongoDB" by (cases "ans_databaseType a") simp
  from assms m show
    "mongodbDatabasedbs r2 = Some (map trim (split_char CHR '','' (ans_mongodbDatabasedbs a)))"
    "mongodbDatabaseExcludeCollections r2 =
           Some (map trim (split_char CHR '','' (ans_mongodbDatabaseExcludeCollections a)))"
    by (auto simp: prompt_database_def Let_def split: if_splits)
qed

lemma prompt_outDir_lists:
  assumes "prompt_outDir a r2 = Inr rv"
  shows "mongodbDatabasedbs rv = mongodbDatabasedbs r2"
    and "mongodbDatabaseExcludeCollections rv = mongodbDatabaseExcludeCollections r2"
  using assms by (auto simp: prompt_outDir_def split: if_splits)

lemma prompt_Inl_exit:
  assumes "prompt Number a = Inl e"
  shows "\<exists>msg. e = Exit 1 msg"
proof -
  have i: "prompt_interval Number a r = Inl e \<Longrightarrow> \<exists>msg. e = Exit 1 msg" for r
    by (auto simp: prompt_interval_def Let_def split: if_splits)
  have d: "prompt_database a r = Inl e \<Longrightarrow> \<exists>msg. e = Exit 1 msg" for r
    by (auto simp: prompt_database_def Let_def split: if_splits)
  have out: "prompt_outDir a r = Inl e \<Longrightarrow> \<exists>msg. e = Exit 1 msg" for r
    by (auto simp: prompt_outDir_def split: if_splits)
  from assms show ?thesis
    unfolding prompt_def Let_def
    by (auto split: if_splits sum.splits dest: i d out)
qed

text \<open>
  Claim C4. An interval below 5000 (4999 in particular) is rejected by the wizard, which
  ends the process with exit code 1, a non-zero code, instead of returning a
  configuration; an interval of exactly 5000 is accepted and stored.
\<close>

theorem prompt_interval_floor:
  "(ans_method a = PAI \<and> Number (ans_interval a) = Fin v \<and> v < 5000
      \<longrightarrow> (\<exists>msg. prompt Number a = Inl (Exit 1 msg)))
   \<and> (ans_method a = PAI \<and> Number (ans_interval a) = Fin 5000
        \<and> ans_projectName a \<noteq> [] \<and> ans_dirPath a \<noteq> []
        \<and> ans_mainFile a \<noteq> [] \<and> endsWith (ans_mainFile a) ''.js''
        \<and> ans_databaseSecret a \<noteq> [] \<and> ans_outDir a \<noteq> []
      \<longrightarrow> (\<exists>rv. prompt Number a = Inr rv \<and> interval rv = Some (Fin 5000)))"
proof (intro conjI impI)
  assume h: "ans_method a = PAI \<and> Number (ans_interval a) = Fin v \<and> v < 5000"
  then have ni: "prompt_interval Number a r \<noteq> Inr r1" for r r1
    by (simp add: prompt_interval_def Let_def)
  have "prompt Number a \<noteq> Inr rv" for rv
  proof
    assume "prompt Number a = Inr rv"
    then show False
      by (rule prompt_Inr_stages) (simp add: ni)
  qed
  then obtain e where "prompt Number a = Inl e"
    by (cases "prompt Number a") auto
  then show "\<exists>msg. prompt Number a = Inl (Exit 1 msg)"
    using prompt_Inl_exit by blast
next
  assume h: "ans_method a = PAI \<and> Number (ans_interval a) = Fin 5000
        \<and> ans_projectName a \<noteq> [] \<and> ans_dirPath a \<noteq> []
        \<and> ans_mainFile a \<noteq> [] \<and> endsWith (ans_mainFile a) ''.js''
        \<and> ans_databaseSecret a \<noteq> [] \<and> ans_outDir a \<noteq> []"
  have m: "ans_databaseType a = MongoDB" by (cases "ans_databaseType a") simp
  from h m show "\<exists>rv. prompt Number a = Inr rv \<and> interval rv = Some (Fin 5000)"
    by (simp add: prompt_def prompt_interval_def prompt_database_def prompt_outDir_def Let_def)
qed

theorem prompt_interval_floor_witness:
  "(\<exists>msg. prompt (\<lambda>s. Fin 4999) (example_answers ''4999'' ''shop'' ''shop/sessions'')
            = Inl (Exit 1 msg))
   \<and> (\<exists>rv. prompt (\<lambda>s. Fin 5000) (example_answers ''5000'' ''shop'' ''shop/sessions'') = Inr rv
          \<and> interval rv = Some (Fin 5000))"
  using prompt_interval_floor [of "example_answers ''4999'' ''shop'' ''shop/sessions''"
          "\<lambda>s. Fin 4999" 4999]
        prompt_interval_floor [of "example_answers ''5000'' ''shop'' ''shop/sessions''"
          "\<lambda>s. Fin 5000" 0]
  by (simp add: example_answers_def endsWith_def)

text \<open>
  Claim C10. Whenever the wizard returns a configuration, neither the database whitelist
  nor the collection blacklist of the generated configuration is an empty array: each is
  the non-empty result of splitting the answer at the commas and trimming the pieces, and
  an empty answer gives the one-element array holding the empty string.
\<close>

theorem prompt_lists_never_empty:
  assumes "prompt Number a = Inr rv"
  shows "\<exists>w b. dbs (dbSpecific (cfg_database (rageConfigFileData rv))) = Some w \<and> w \<noteq> []
           \<and> excludeCollections (dbSpecific (cfg_database (rageConfigFileData rv))) = Some b
           \<and> b \<noteq> []
           \<and> (ans_mongodbDatabasedbs a = [] \<longrightarrow> w = [[]])
           \<and> (ans_mongodbDatabaseExcludeCollections a = [] \<longrightarrow> b = [[]])"
proof -
  from assms obtain r1 r2 where
    db: "prompt_database a r1 = Inr r2" and od: "prompt_outDir a r2 = Inr rv"
    by (rule prompt_Inr_stages)
  let ?w = "map trim (split_char CHR '','' (ans_mongodbDatabasedbs a))"
  let ?b = "map trim (split_char CHR '','' (ans_mongodbDatabaseExcludeCollections a))"
  have w: "mongodbDatabasedbs rv = Some ?w"
    and b: "mongodbDatabaseExcludeCollections rv = Some ?b"
    using prompt_database_lists [OF db] prompt_outDir_lists [OF od] by simp_all
  have "?w \<noteq> []" "?b \<noteq> []"
    by (simp_all add: split_char_not_Nil)
  moreover have "ans_mongodbDatabasedbs a = [] \<longrightarrow> ?w = [[]]"
    and "ans_mongodbDatabaseExcludeCollections a = [] \<longrightarrow> ?b = [[]]"
    by (simp_all add: trim_def)
  ultimately show ?thesis
    using w b by (simp add: rageConfigFileData_def)
qed

theorem prompt_lists_never_empty_witness:
  "prompt (\<lambda>s. Fin 600000) (example_answers ''600000'' '''' '''')
     = Inr (initialReturnValues\<lparr>projectName := ''backup'',
          databaseSecret := Some ''mongodb://localhost'',
          mongodbDatabasedbs := Some [''''], mongodbDatabaseExcludeCollections := Some [''''],
          outDir := ''out''\<rparr>)
   \<and> (\<exists>w b. dbs (dbSpecific (cfg_database (rageConfigFileData
          (initialReturnValues\<lparr>projectName := ''backup'',
          databaseSecret := Some ''mongodb://localhost'',
          mongodbDatabasedbs := Some [''''], mongodbDatabaseExcludeCollections := Some [''''],
          outDir := ''out''\<rparr>)))) = Some w \<and> w \<noteq> []
        \<and> excludeCollections (dbSpecific (cfg_database (rageConfigFileData
          (initialReturnValues\<lparr>projectName := ''backup'',
          databaseSecret := Some ''mongodb://localhost'',
          mongodbDatabasedbs := Some [''''], mongodbDatabaseExcludeCollections := Some [''''],
          outDir := ''out''\<rparr>)))) = Some b \<and> b \<noteq> [] \<and> w = [[]] \<and> b = [[]])"
proof -
  have p: "prompt (\<lambda>s. Fin 600000) (example_answers ''600000'' '''' '''')
     = Inr (initialReturnValues\<lparr>projectName := ''backup'',
          databaseSecret := Some ''mongodb://localhost'',
          mongodbDatabasedbs := Some [''''], mongodbDatabaseExcludeCollections := Some [''''],
          outDir := ''out''\<rparr>)"
    by (simp add: prompt_def prompt_interval_def prompt_database_def prompt_outDir_def
          example_answers_def endsWith_def initialReturnValues_def trim_def Let_def)
  show ?thesis
    using prompt_lists_never_empty [OF p] p
    by (simp add: example_answers_def)
qed

section \<open>Properties of the scope resolver\<close>

lemma set_schema_targets:
  "set (schema_targets av) = {(d, c). \<exists>cs. (d, cs) \<in> set av \<and> c \<in> set cs}"
  by (auto simp: schema_targets_def)

lemma set_resolve:
  "set (resolve W B av) = {(d, c). (\<exists>cs. (d, cs) \<in> set av \<and> c \<in> set cs) \<and> d \<in> set W \<and> (d, c) \<notin> set B}"
  by (auto simp: resolve_def split: if_splits)

text \<open>
  Claim C1. For every whitelist \<open>W\<close>, blacklist \<open>B\<close> and remote schema, a target
  \<open>(d, c)\<close> of the schema is in the output of \<open>resolve\<close> if and only if \<open>d\<close> is a
  member of \<open>W\<close> and \<open>(d, c)\<close> is not a member of \<open>B\<close>, and the output holds targets of
  the schema only. So the blacklist only removes targets (the output is within the output
  for the empty blacklist), an empty whitelist gives the empty result, and with whitelist
  \<open>["shop"]\<close> and blacklist \<open>["shop/sessions"]\<close> over the databases \<open>shop\<close>
  (\<open>users\<close>, \<open>sessions\<close>) and \<open>logs\<close> (\<open>events\<close>) the resolved targets are exactly
  \<open>[("shop", "users")]\<close>.
\<close>

theorem resolve_whitelist_blacklist:
  "((d, c) \<in> set (resolve W B av)
      \<longleftrightarrow> (d, c) \<in> set (schema_targets av) \<and> d \<in> set W \<and> (d, c) \<notin> set B)
   \<and> set (resolve W B av) \<subseteq> set (resolve W [] av)
   \<and> resolve [] B av = []
   \<and> resolve [''shop''] (map split_exclude_entry [''shop/sessions''])
        [(''shop'', [''users'', ''sessions'']), (''logs'', [''events''])]
      = [(''shop'', ''users'')]"
proof (intro conjI)
  show "(d, c) \<in> set (resolve W B av)
      \<longleftrightarrow> (d, c) \<in> set (schema_targets av) \<and> d \<in> set W \<and> (d, c) \<notin> set B"
    by (simp add: set_resolve set_schema_targets)
  show "set (resolve W B av) \<subseteq> set (resolve W [] av)"
    by (auto simp: set_resolve)
  show "resolve [] B av = []"
    by (induction av) (auto simp: resolve_def)
  show "resolve [''shop''] (map split_exclude_entry [''shop/sessions''])
        [(''shop'', [''users'', ''sessions'']), (''logs'', [''events''])]
      = [(''shop'', ''users'')]"
    by (simp add: resolve_def split_exclude_entry_def)
qed

section \<open>Properties of the file system operations\<close>

lemma walk_append:
  "walk fs cur (xs @ ys) = (case walk fs cur xs of Inl e \<Rightarrow> Inl e | Inr c \<Rightarrow> walk fs c ys)"
  by (induction xs arbitrary: cur) (auto split: option.splits node.splits)

lemma walk_same_dirs:
  assumes "\<And>loc. (fs' loc = Some Directory) = (fs loc = Some Directory)"
    and "walk fs cur segs = Inr r"
  shows "walk fs' cur segs = Inr r"
  using assms(2)
proof (induction segs arbitrary: cur)
  case Nil
  then show ?case by simp
next
  case (Cons seg segs)
  from Cons.prems have d: "fs cur = Some Directory"
    by (auto split: option.splits node.splits)
  then have d': "fs' cur = Some Directory" using assms(1) by simp
  from Cons.prems d Cons.IH show ?case
    by (auto simp: d' split: if_splits)
qed

lemma walk_more_dirs:
  assumes "\<And>loc. fs loc = Some Directory \<Longrightarrow> fs' loc = Some Directory"
    and "walk fs cur segs = Inr r"
  shows "walk fs' cur segs = Inr r"
  using assms(2)
proof (induction segs arbitrary: cur)
  case Nil
  then show ?case by simp
next
  case (Cons seg segs)
  from Cons.prems have d: "fs cur = Some Directory"
    by (auto split: option.splits node.splits)
  then have d': "fs' cur = Some Directory" using assms(1) by simp
  from Cons.prems d Cons.IH show ?case
    by (auto simp: d' split: if_splits)
qed

lemma existsSync_world:
  "snd (existsSync p w) = w\<lparr>fs_calls := fs_calls w @ [ExistsSync p]\<rparr>"
  by (simp add: existsSync_def)

lemma mkdirSync_effect:
  assumes "mkdirSync p w = (r, w')"
  shows "fs_calls w' = fs_calls w @ [MkdirSync p]"
    and "cwd w' = cwd w" and "console w' = console w" and "clock w' = clock w"
    and "(\<exists>e. r = Inl e \<and> entries w' = entries w)
         \<or> (\<exists>loc. r = Inr () \<and> entries w loc = None \<and> entries w' = (entries w)(loc \<mapsto> Directory))"
  using assms
  by (auto simp: mkdirSync_def Let_def split: if_splits sum.splits option.splits node.splits)

lemma writeFileSync_effect:
  assumes "writeFileSync p d w = (r, w')"
  shows "fs_calls w' = fs_calls w @ [WriteFileSync p d]"
    and "cwd w' = cwd w" and "console w' = console w" and "clock w' = clock w"
    and "(\<exists>e. r = Inl e \<and> entries w' = entries w)
         \<or> (\<exists>loc c. r = Inr () \<and> d = Some c \<and> entries w loc \<noteq> Some Directory
               \<and> entries w' = (entries w)(loc \<mapsto> RegularFile c))"
  using assms
  by (auto simp: writeFileSync_def Let_def split: if_splits sum.splits option.splits node.splits)

lemma writeFileSync_Inr:
  assumes "writeFileSync p d w = (Inr u, w')"
  obtains c parent where "d = Some c" "\<not> has_nul p" "p \<noteq> []"
    "walk (entries w) (start_of w p) (butlast (split_char CHR ''/'' p)) = Inr parent"
    "entries w parent = Some Directory"
    "last (split_char CHR ''/'' p) \<noteq> []" "last (split_char CHR ''/'' p) \<noteq> ''.''"
    "last (split_char CHR ''/'' p) \<noteq> ''..''"
    "entries w (parent @ [last (split_char CHR ''/'' p)]) \<noteq> Some Directory"
    "w' = w\<lparr>fs_calls := fs_calls w @ [WriteFileSync p d],
            entries := (entries w)(parent @ [last (split_char CHR ''/'' p)] \<mapsto> RegularFile c)\<rparr>"
  using assms
  by (auto simp: writeFileSync_def Let_def split: if_splits sum.splits option.splits node.splits)

lemma read_after_write:
  assumes "writeFileSync p d w = (Inr u, w')"
  shows "\<exists>c. d = Some c \<and> readFileSync p w' = Inr c"
proof -
  let ?segs = "split_char CHR ''/'' p"
  from assms obtain c parent where h:
    "d = Some c" "\<not> has_nul p" "p \<noteq> []"
    "walk (entries w) (start_of w p) (butlast ?segs) = Inr parent"
    "entries w parent = Some Directory"
    "last ?segs \<noteq> []" "last ?segs \<noteq> ''.''" "last ?segs \<noteq> ''..''"
    "entries w (parent @ [last ?segs]) \<noteq> Some Directory"
    "w' = w\<lparr>fs_calls := fs_calls w @ [WriteFileSync p d],
            entries := (entries w)(parent @ [last ?segs] \<mapsto> RegularFile c)\<rparr>"
    by (rule writeFileSync_Inr)
  let ?fs' = "(entries w)(parent @ [last ?segs] \<mapsto> RegularFile c)"
  have e': "entries w' = ?fs'" and s': "start_of w' p = start_of w p"
    using h(10) by (simp_all add: start_of_def)
  have dirs: "(?fs' loc = Some Directory) = (entries w loc = Some Directory)" for loc
    using h(9) by simp
  have w1: "walk ?fs' (start_of w p) (butlast ?segs) = Inr parent"
    using walk_same_dirs [of ?fs' "entries w", OF dirs h(4)] .
  have pd: "?fs' parent = Some Directory"
    using h(5) by simp
  have w2: "walk ?fs' parent [last ?segs] = Inr (parent @ [last ?segs])"
    using h(6,7,8) pd by simp
  have segs: "?segs = butlast ?segs @ [last ?segs]"
    using split_char_not_Nil [of "CHR ''/''" p] by simp
  have "walk ?fs' (start_of w p) ?segs = Inr (parent @ [last ?segs])"
    by (subst segs) (simp add: walk_append w1 w2 del: walk.simps)
  then have "locate w' p = Inr (parent @ [last ?segs])"
    using h(3) by (simp add: locate_def e' s')
  then have "readFileSync p w' = Inr c"
    using h(2) by (simp add: readFileSync_def e')
  with h(1) show ?thesis by simp
qed

lemma mkdirSync_Inr:
  assumes "mkdirSync p w = (Inr u, w')"
  obtains parent where "\<not> has_nul p" "p \<noteq> []"
    "strip_trailing (split_char CHR ''/'' p) \<noteq> []"
    "walk (entries w) (start_of w p) (butlast (strip_trailing (split_char CHR ''/'' p))) = Inr parent"
    "entries w parent = Some Directory"
    "last (strip_trailing (split_char CHR ''/'' p)) \<noteq> ''.''"
    "last (strip_trailing (split_char CHR ''/'' p)) \<noteq> ''..''"
    "entries w (parent @ [last (strip_trailing (split_char CHR ''/'' p))]) = None"
    "w' = w\<lparr>fs_calls := fs_calls w @ [MkdirSync p],
            entries := (entries w)(parent @ [last (strip_trailing (split_char CHR ''/'' p))]
                         \<mapsto> Directory)\<rparr>"
  using assms
  by (auto simp: mkdirSync_def Let_def split: if_splits sum.splits option.splits node.splits)

lemma strip_trailing_split:
  "\<exists>k. segs = strip_trailing segs @ replicate k []"
proof -
  let ?P = "\<lambda>seg::string. seg = []"
  have "rev segs = takeWhile ?P (rev segs) @ dropWhile ?P (rev segs)" by simp
  then have "segs = rev (dropWhile ?P (rev segs)) @ rev (takeWhile ?P (rev segs))"
    by (metis rev_append rev_rev_ident)
  moreover have "rev (takeWhile ?P (rev segs)) = replicate (length (takeWhile ?P (rev segs))) []"
    by (intro replicate_eqI) (auto dest: set_takeWhileD)
  ultimately show ?thesis
    unfolding strip_trailing_def by metis
qed

lemma last_strip_trailing:
  "strip_trailing segs \<noteq> [] \<Longrightarrow> last (strip_trailing segs) \<noteq> []"
  unfolding strip_trailing_def
  by (metis (mono_tags, lifting) dropWhile_eq_Nil_conv hd_dropWhile last_rev rev_is_Nil_conv)

lemma walk_empties:
  "fs cur = Some Directory \<Longrightarrow> walk fs cur (replicate k []) = Inr cur"
  by (induction k) auto

lemma walk_three:
  assumes "segs = xs @ [x] @ ys" "walk fs cur xs = Inr a" "walk fs a [x] = Inr b"
    "walk fs b ys = Inr c"
  shows "walk fs cur segs = Inr c"
  unfolding assms(1) walk_append using assms(2-4) by simp

lemma locate_after_mkdir:
  assumes "mkdirSync p w = (Inr u, w')"
  shows "\<exists>loc. locate w' p = Inr loc \<and> entries w' loc = Some Directory"
proof -
  let ?full = "split_char CHR ''/'' p"
  let ?segs = "strip_trailing ?full"
  from assms obtain parent where h:
    "\<not> has_nul p" "p \<noteq> []" "?segs \<noteq> []"
    "walk (entries w) (start_of w p) (butlast ?segs) = Inr parent"
    "entries w parent = Some Directory"
    "last ?segs \<noteq> ''.''" "last ?segs \<noteq> ''..''"
    "entries w (parent @ [last ?segs]) = None"
    "w' = w\<lparr>fs_calls := fs_calls w @ [MkdirSync p],
            entries := (entries w)(parent @ [last ?segs] \<mapsto> Directory)\<rparr>"
    by (rule mkdirSync_Inr)
  let ?fs' = "(entries w)(parent @ [last ?segs] \<mapsto> Directory)"
  have e': "entries w' = ?fs'" and s': "start_of w' p = start_of w p"
    using h(9) by (simp_all add: start_of_def)
  have more: "entries w loc = Some Directory \<Longrightarrow> ?fs' loc = Some Directory" for loc
    by simp
  have w1: "walk ?fs' (start_of w p) (butlast ?segs) = Inr parent"
    using walk_more_dirs [of "entries w" ?fs', OF more h(4)] .
  have ne: "last ?segs \<noteq> []" using last_strip_trailing [OF h(3)] .
  have pd: "?fs' parent = Some Directory" using h(5) by simp
  have w2: "walk ?fs' parent [last ?segs] = Inr (parent @ [last ?segs])"
    using ne h(6,7) pd by simp
  obtain k where k: "?full = ?segs @ replicate k []"
    using strip_trailing_split by blast
  have w3: "walk ?fs' (parent @ [last ?segs]) (replicate k []) = Inr (parent @ [last ?segs])"
    by (rule walk_empties) simp
  have "?segs = butlast ?segs @ [last ?segs]"
    using h(3) by simp
  then have "?segs @ replicate k [] = butlast ?segs @ [last ?segs] @ replicate k []"
    by (metis append.assoc)
  then have "?full = butlast ?segs @ [last ?segs] @ replicate k []"
    using k by simp
  then have "walk ?fs' (start_of w p) ?full = Inr (parent @ [last ?segs])"
    using w1 w2 w3 by (rule walk_three)
  then show ?thesis
    using h(2) by (simp add: locate_def e' s')
qed

lemma locate_cong:
  "entries v = entries w \<Longrightarrow> cwd v = cwd w \<Longrightarrow> locate v p = locate w p"
  by (simp add: locate_def start_of_def)

lemma locate_after_write:
  assumes "writeFileSync q d w = (Inr u, w')"
    and "locate w p = Inr loc" and "entries w loc \<noteq> None"
  shows "locate w' p = Inr loc" and "entries w' loc \<noteq> None"
proof -
  let ?segs = "split_char CHR ''/'' q"
  from assms(1) obtain c parent where h:
    "entries w (parent @ [last ?segs]) \<noteq> Some Directory"
    "w' = w\<lparr>fs_calls := fs_calls w @ [WriteFileSync q d],
            entries := (entries w)(parent @ [last ?segs] \<mapsto> RegularFile c)\<rparr>"
    by (rule writeFileSync_Inr)
  have more: "entries w l = Some Directory \<Longrightarrow> entries w' l = Some Directory" for l
    using h by auto
  have s': "start_of w' p = start_of w p"
    using h(2) by (simp add: start_of_def)
  from assms(2) have ne: "p \<noteq> []" and wk: "walk (entries w) (start_of w p) (split_char CHR ''/'' p) = Inr loc"
    by (auto simp: locate_def split: if_splits)
  show "locate w' p = Inr loc"
    using walk_more_dirs [of "entries w" "entries w'", OF more wk] ne
    by (simp add: locate_def s')
  show "entries w' loc \<noteq> None"
    using assms(3) h(2) by simp
qed

lemma writeFileSync_again:
  assumes "writeFileSync p d w = (Inr u, w')"
    and "entries v = entries w'" and "cwd v = cwd w"
  shows "\<exists>v'. writeFileSync p d v = (Inr (), v') \<and> entries v' = entries v"
proof -
  let ?segs = "split_char CHR ''/'' p"
  from assms(1) obtain c parent where h:
    "d = Some c" "\<not> has_nul p" "p \<noteq> []"
    "walk (entries w) (start_of w p) (butlast ?segs) = Inr parent"
    "entries w parent = Some Directory"
    "last ?segs \<noteq> []" "last ?segs \<noteq> ''.''" "last ?segs \<noteq> ''..''"
    "entries w (parent @ [last ?segs]) \<noteq> Some Directory"
    "w' = w\<lparr>fs_calls := fs_calls w @ [WriteFileSync p d],
            entries := (entries w)(parent @ [last ?segs] \<mapsto> RegularFile c)\<rparr>"
    by (rule writeFileSync_Inr)
  have ev: "entries v = (entries w)(parent @ [last ?segs] \<mapsto> RegularFile c)"
    using assms(2) h(10) by simp
  have more: "entries w l = Some Directory \<Longrightarrow> entries v l = Some Directory" for l
    using h(9) by (auto simp: ev)
  have sv: "start_of v p = start_of w p"
    using assms(3) by (simp add: start_of_def)
  have w1: "walk (entries v) (start_of v p) (butlast ?segs) = Inr parent"
    unfolding sv using walk_more_dirs [of "entries w" "entries v", OF more h(4)] .
  have pd: "entries v parent = Some Directory"
    using h(5) more by simp
  have tgt: "entries v (parent @ [last ?segs]) = Some (RegularFile c)"
    by (simp add: ev)
  have same: "(entries v)(parent @ [last ?segs] \<mapsto> RegularFile c) = entries v"
    using tgt by (simp add: fun_upd_idem)
  show ?thesis
    using h(1,2,3,6,7,8) w1 pd tgt same
    by (simp add: writeFileSync_def Let_def)
qed

lemma existsSync_fst:
  "fst (existsSync p w) = (\<not> has_nul p \<and> (\<exists>loc. locate w p = Inr loc \<and> entries w loc \<noteq> None))"
  by (auto simp: existsSync_def node_at_def split: sum.splits)

lemma existsSync_snd [simp]:
  "entries (snd (existsSync p w)) = entries w" "cwd (snd (existsSync p w)) = cwd w"
  "clock (snd (existsSync p w)) = clock w" "console (snd (existsSync p w)) = console w"
  "fs_calls (snd (existsSync p w)) = fs_calls w @ [ExistsSync p]"
  by (simp_all add: existsSync_def)

lemma console_log_fields [simp]:
  "entries (console_log l w) = entries w" "cwd (console_log l w) = cwd w"
  "clock (console_log l w) = clock w" "fs_calls (console_log l w) = fs_calls w"
  "console (console_log l w) = console w @ [ConsoleLog l]"
  by (simp_all add: console_log_def)

lemma console_error_fields [simp]:
  "entries (console_error e w) = entries w" "cwd (console_error e w) = cwd w"
  "clock (console_error e w) = clock w" "fs_calls (console_error e w) = fs_calls w"
  "console (console_error e w) = console w @ [ConsoleError e]"
  by (simp_all add: console_error_def)

section \<open>Properties of the file writer\<close>

lemma writeJsonFiles_try_cases:
  assumes "writeJsonFiles_try args w = (r, w')"
  obtains (serialize) e where
      "JSON_stringify (dataToWrite args) 2 = Inl e" "r = Inl e" "w' = w"
  | (present) d wr where
      "JSON_stringify (dataToWrite args) 2 = Inr d"
      "fst (existsSync (folderPath_of args) w)"
      "writeFileSync (finalFilePath_of args) d (snd (existsSync (folderPath_of args) w)) = (wr, w')"
      "r = (case wr of Inl e \<Rightarrow> Inl e | Inr u \<Rightarrow> Inr (finalFilePath_of args))"
  | (mkdir_failed) d e where
      "JSON_stringify (dataToWrite args) 2 = Inr d"
      "\<not> fst (existsSync (folderPath_of args) w)"
      "mkdirSync (folderPath_of args) (snd (existsSync (folderPath_of args) w)) = (Inl e, w')"
      "r = Inl e"
  | (created) d w2 wr where
      "JSON_stringify (dataToWrite args) 2 = Inr d"
      "\<not> fst (existsSync (folderPath_of args) w)"
      "mkdirSync (folderPath_of args) (snd (existsSync (folderPath_of args) w)) = (Inr (), w2)"
      "writeFileSync (finalFilePath_of args) d
         (console_log (directory_created (clock w2) (folderPath_of args)) w2) = (wr, w')"
      "r = (case wr of Inl e \<Rightarrow> Inl e | Inr u \<Rightarrow> Inr (finalFilePath_of args))"
proof (cases "JSON_stringify (dataToWrite args) 2")
  case (Inl e)
  with assms show ?thesis
    by (intro serialize [of e]) (simp_all add: writeJsonFiles_try_def Let_def)
next
  case (Inr d)
  obtain ex w1 where ex: "existsSync (folderPath_of args) w = (ex, w1)"
    by (cases "existsSync (folderPath_of args) w")
  show ?thesis
  proof (cases ex)
    case True
    obtain wr w2 where wf: "writeFileSync (finalFilePath_of args) d w1 = (wr, w2)"
      by (cases "writeFileSync (finalFilePath_of args) d w1")
    from assms Inr ex True wf show ?thesis
      by (intro present [of d wr])
         (auto simp: writeJsonFiles_try_def Let_def split: sum.splits)
  next
    case False
    obtain mr w2 where mk: "mkdirSync (folderPath_of args) w1 = (mr, w2)"
      by (cases "mkdirSync (folderPath_of args) w1")
    show ?thesis
    proof (cases mr)
      case (Inl e)
      from assms Inr ex False mk Inl show ?thesis
        by (intro mkdir_failed [of d e]) (auto simp: writeJsonFiles_try_def Let_def)
    next
      case (Inr u)
      obtain wr w4 where wf: "writeFileSync (finalFilePath_of args) d
         (console_log (directory_created (clock w2) (folderPath_of args)) w2) = (wr, w4)"
        by (cases "writeFileSync (finalFilePath_of args) d
         (console_log (directory_created (clock w2) (folderPath_of args)) w2)")
      from assms \<open>JSON_stringify (dataToWrite args) 2 = Inr d\<close> ex False mk Inr wf show ?thesis
        by (intro created [of d w2 wr])
           (auto simp: writeJsonFiles_try_def Let_def split: sum.splits)
    qed
  qed
qed

lemma writeJsonFiles_Inr:
  "writeJsonFiles args w =
     Inr (case writeJsonFiles_try args w of
            (Inr finalFilePath, w') \<Rightarrow> (ReturnedPath finalFilePath, w')
          | (Inl error, w') \<Rightarrow> (ReturnedFalse, console_error error w'))"
  by (simp add: writeJsonFiles_def split: prod.splits sum.splits)

lemma writeJsonFiles_path:
  assumes "writeJsonFiles args w = Inr (ReturnedPath p, w')"
  shows "writeJsonFiles_try args w = (Inr p, w')"
  using assms by (auto simp: writeJsonFiles_def split: prod.splits sum.splits)

lemma writeJsonFiles_false:
  assumes "writeJsonFiles args w = Inr (ReturnedFalse, w')"
  shows "\<exists>e w1. writeJsonFiles_try args w = (Inl e, w1) \<and> w' = console_error e w1"
  using assms by (auto simp: writeJsonFiles_def split: prod.splits sum.splits)


lemma try_path_written:
  assumes "writeJsonFiles_try args w = (Inr p, w')"
  shows "p = finalFilePath_of args
         \<and> (\<exists>c. JSON_stringify (dataToWrite args) 2 = Inr (Some c) \<and> readFileSync p w' = Inr c)"
  using assms
proof (cases rule: writeJsonFiles_try_cases)
  case (present d wr)
  then obtain u where "wr = Inr u" and p: "p = finalFilePath_of args"
    by (cases wr) auto
  with present read_after_write [of "finalFilePath_of args" d _ u w'] show ?thesis
    by auto
next
  case (created d w2 wr)
  then obtain u where "wr = Inr u" and p: "p = finalFilePath_of args"
    by (cases wr) auto
  with created read_after_write [of "finalFilePath_of args" d _ u w'] show ?thesis
    by auto
qed simp_all

lemma try_path_folder_exists:
  assumes "writeJsonFiles_try args w = (Inr p, w')"
  shows "fst (existsSync (folderPath_of args) w')"
  using assms
proof (cases rule: writeJsonFiles_try_cases)
  case (present d wr)
  let ?w1 = "snd (existsSync (folderPath_of args) w)"
  from present obtain u where wr: "wr = Inr u" by (cases wr) auto
  from present(2) obtain loc where l: "\<not> has_nul (folderPath_of args)"
    "locate w (folderPath_of args) = Inr loc" "entries w loc \<noteq> None"
    by (auto simp: existsSync_fst)
  have l1: "locate ?w1 (folderPath_of args) = Inr loc" "entries ?w1 loc \<noteq> None"
    using l by (simp_all add: locate_cong [of ?w1 w])
  from locate_after_write [OF present(3) [unfolded wr] l1] l(1)
  show ?thesis by (auto simp: existsSync_fst)
next
  case (created d w2 wr)
  let ?w3 = "console_log (directory_created (clock w2) (folderPath_of args)) w2"
  from created obtain u where wr: "wr = Inr u" by (cases wr) auto
  from created(3) have nn: "\<not> has_nul (folderPath_of args)"
    by (rule mkdirSync_Inr)
  from locate_after_mkdir [OF created(3)] obtain loc where
    l: "locate w2 (folderPath_of args) = Inr loc" "entries w2 loc = Some Directory"
    by blast
  have l3: "locate ?w3 (folderPath_of args) = Inr loc" "entries ?w3 loc \<noteq> None"
    using l by (simp_all add: locate_cong [of ?w3 w2])
  from locate_after_write [OF created(4) [unfolded wr] l3] nn
  show ?thesis by (auto simp: existsSync_fst)
qed simp_all

lemma try_path_again:
  assumes "writeJsonFiles_try args w = (Inr p, w')"
  shows "\<exists>w''. writeJsonFiles_try args w' = (Inr p, w'') \<and> entries w'' = entries w'"
proof -
  have ex: "fst (existsSync (folderPath_of args) w')"
    using try_path_folder_exists [OF assms] .
  then obtain v1 where ex': "existsSync (folderPath_of args) w' = (True, v1)"
    by (cases "existsSync (folderPath_of args) w'") simp
  have v1: "entries v1 = entries w'" "cwd v1 = cwd w'"
    using existsSync_snd(1,2) [of "folderPath_of args" w'] by (simp_all add: ex')
  have "\<exists>d wx u. JSON_stringify (dataToWrite args) 2 = Inr d
          \<and> writeFileSync (finalFilePath_of args) d wx = (Inr u, w') \<and> cwd wx = cwd w
          \<and> p = finalFilePath_of args"
    using assms
  proof (cases rule: writeJsonFiles_try_cases)
    case (present d wr)
    then obtain u where "wr = Inr u" "p = finalFilePath_of args" by (cases wr) auto
    with present show ?thesis
      by (intro exI [of _ d] exI [of _ "snd (existsSync (folderPath_of args) w)"] exI [of _ u]) simp
  next
    case (created d w2 wr)
    then obtain u where "wr = Inr u" "p = finalFilePath_of args" by (cases wr) auto
    moreover have "cwd w2 = cwd w"
      using mkdirSync_effect(2) [OF created(3)] by simp
    ultimately show ?thesis using created
      by (intro exI [of _ d] exI [of _ "console_log (directory_created (clock w2) (folderPath_of args)) w2"] exI [of _ u]) simp
  qed simp_all
  then obtain d wx u where d: "JSON_stringify (dataToWrite args) 2 = Inr d"
    and wf: "writeFileSync (finalFilePath_of args) d wx = (Inr u, w')" and cw: "cwd wx = cwd w"
    and p: "p = finalFilePath_of args"
    by blast
  have cw': "cwd w' = cwd wx"
    using writeFileSync_effect(2) [OF wf] .
  obtain v' where v': "writeFileSync (finalFilePath_of args) d v1 = (Inr (), v')"
    "entries v' = entries v1"
    using writeFileSync_again [OF wf, of v1] cw' v1 by auto
  have "writeJsonFiles_try args w' = (Inr p, v')"
    using d ex' v'(1) p by (simp add: writeJsonFiles_try_def Let_def)
  then show ?thesis using v'(2) v1 by simp
qed

lemma example_stringify:
  "JSON_stringify example_snapshot 2 = Inr (Some example_payload)"
  by code_simp

lemma example_run:
  "writeJsonFiles example_args example_world =
     Inr (ReturnedPath ''out/shop/users.json'',
          example_world
            \<lparr> entries := (entries example_world)
                 ([''home'', ''out'', ''shop''] \<mapsto> Directory,
                  [''home'', ''out'', ''shop'', ''users.json''] \<mapsto> RegularFile example_payload),
              console := [ConsoleLog (directory_created 1234567 ''out/shop'')],
              fs_calls := [ExistsSync ''out/shop'', MkdirSync ''out/shop'',
                           WriteFileSync ''out/shop/users.json'' (Some example_payload)] \<rparr>)"
  by (simp add: writeJsonFiles_def writeJsonFiles_try_def example_args_def example_stringify
        folderPath_of_def finalFilePath_of_def path_join_def path_normalize_def
        normalizeString_def normalizeString_step_def isAbsolute_def trailingSeparator_def
        existsSync_def mkdirSync_def writeFileSync_def node_at_def locate_def start_of_def
        has_nul_def strip_trailing_def console_log_def example_world_def Let_def)



lemma example_run_no_root:
  "writeJsonFiles_try (example_args\<lparr>dirPath := ''backup''\<rparr>) example_world =
     (Inl (SystemError ENOENT ''backup/shop''),
      example_world\<lparr>fs_calls := [ExistsSync ''backup/shop'', MkdirSync ''backup/shop'']\<rparr>)"
  by (simp add: writeJsonFiles_try_def example_args_def example_stringify
        folderPath_of_def finalFilePath_of_def path_join_def path_normalize_def
        normalizeString_def normalizeString_step_def isAbsolute_def trailingSeparator_def
        existsSync_def mkdirSync_def writeFileSync_def node_at_def locate_def start_of_def
        has_nul_def strip_trailing_def console_log_def example_world_def Let_def)


text \<open>
  Claim C7. The file writer is deterministic in its data: two successful calls with the
  same arguments, in whatever worlds, return the same path and leave the same content in
  the file, the serialisation of the data; and a successful call that is repeated at once
  succeeds again with the same path and leaves the file system as it was, so the file
  is byte for byte the same.
\<close>

theorem writeJsonFiles_deterministic:
  "(writeJsonFiles args w1 = Inr (ReturnedPath p1, w1')
      \<and> writeJsonFiles args w2 = Inr (ReturnedPath p2, w2')
    \<longrightarrow> p1 = p2
        \<and> (\<exists>c. JSON_stringify (dataToWrite args) 2 = Inr (Some c)
               \<and> readFileSync p1 w1' = Inr c \<and> readFileSync p2 w2' = Inr c))
   \<and> (writeJsonFiles args w1 = Inr (ReturnedPath p1, w1')
    \<longrightarrow> (\<exists>w1''. writeJsonFiles args w1' = Inr (ReturnedPath p1, w1'')
               \<and> entries w1'' = entries w1'
               \<and> readFileSync p1 w1'' = readFileSync p1 w1'))"
proof -
  have two: "p1 = p2
        \<and> (\<exists>c. JSON_stringify (dataToWrite args) 2 = Inr (Some c)
               \<and> readFileSync p1 w1' = Inr c \<and> readFileSync p2 w2' = Inr c)"
    if "writeJsonFiles args w1 = Inr (ReturnedPath p1, w1')
      \<and> writeJsonFiles args w2 = Inr (ReturnedPath p2, w2')"
  proof -
    from that have "writeJsonFiles_try args w1 = (Inr p1, w1')"
      "writeJsonFiles_try args w2 = (Inr p2, w2')"
      by (simp_all add: writeJsonFiles_path)
    from try_path_written [OF this(1)] try_path_written [OF this(2)]
    show ?thesis by auto
  qed
  have again: "\<exists>w1''. writeJsonFiles args w1' = Inr (ReturnedPath p1, w1'')
               \<and> entries w1'' = entries w1' \<and> readFileSync p1 w1'' = readFileSync p1 w1'"
    if "writeJsonFiles args w1 = Inr (ReturnedPath p1, w1')"
  proof -
    from that have t: "writeJsonFiles_try args w1 = (Inr p1, w1')"
      by (rule writeJsonFiles_path)
    from try_path_again [OF t] obtain w1'' where
      a: "writeJsonFiles_try args w1' = (Inr p1, w1'')" "entries w1'' = entries w1'"
      by blast
    from try_path_written [OF t] try_path_written [OF a(1)]
    have "readFileSync p1 w1'' = readFileSync p1 w1'" by auto
    with a show ?thesis
      by (auto simp: writeJsonFiles_def)
  qed
  from two again show ?thesis by blast
qed

theorem writeJsonFiles_deterministic_witness:
  "\<exists>w' w''. writeJsonFiles example_args example_world = Inr (ReturnedPath ''out/shop/users.json'', w')
     \<and> writeJsonFiles example_args w' = Inr (ReturnedPath ''out/shop/users.json'', w'')
     \<and> entries w'' = entries w'
     \<and> readFileSync ''out/shop/users.json'' w' = Inr example_payload
     \<and> readFileSync ''out/shop/users.json'' w'' = Inr example_payload"
proof -
  obtain w' where r1:
    "writeJsonFiles example_args example_world = Inr (ReturnedPath ''out/shop/users.json'', w')"
    using example_run by blast
  from writeJsonFiles_deterministic [of example_args example_world "''out/shop/users.json''" w'
      example_world "''out/shop/users.json''" w'] r1
  obtain c w'' where
    "JSON_stringify (dataToWrite example_args) 2 = Inr (Some c)"
    "readFileSync ''out/shop/users.json'' w' = Inr c"
    "writeJsonFiles example_args w' = Inr (ReturnedPath ''out/shop/users.json'', w'')"
    "entries w'' = entries w'"
    "readFileSync ''out/shop/users.json'' w'' = readFileSync ''out/shop/users.json'' w'"
    by blast
  moreover from this(1) have "c = example_payload"
    by (simp add: example_args_def example_stringify)
  ultimately show ?thesis using r1 by auto
qed




section \<open>Properties of \<open>path.join\<close>\<close>

lemma split_char_append_sep:
  "split_char c (a @ c # b) = split_char c a @ split_char c b"
proof (induction a)
  case Nil
  then show ?case by simp
next
  case (Cons x xs)
  obtain w ws where s: "split_char c xs = w # ws"
    using split_char_not_Nil [of c xs] by (cases "split_char c xs") auto
  with Cons show ?case by simp
qed

lemma split_char_no_sep: "c \<notin> set s \<Longrightarrow> split_char c s = [s]"
  by (induction s) auto

lemma split_char_segments: "seg \<in> set (split_char c s) \<Longrightarrow> c \<notin> set seg"
proof (induction s arbitrary: seg)
  case Nil
  then show ?case by simp
next
  case (Cons x xs)
  obtain w ws where s: "split_char c xs = w # ws"
    using split_char_not_Nil [of c xs] by (cases "split_char c xs") auto
  with Cons show ?case by (auto split: if_splits)
qed

lemma join_with_Cons:
  "xs \<noteq> [] \<Longrightarrow> join_with sep (x # xs) = x @ sep @ join_with sep xs"
  by (cases xs) auto



lemma split_char_join:
  "xs \<noteq> [] \<Longrightarrow> (\<And>x. x \<in> set xs \<Longrightarrow> c \<notin> set x) \<Longrightarrow> split_char c (join_with [c] xs) = xs"
proof (induction xs)
  case Nil
  then show ?case by simp
next
  case (Cons x xs)
  show ?case
  proof (cases "xs = []")
    case True
    with Cons.prems show ?thesis by (simp add: split_char_no_sep)
  next
    case False
    then have "join_with [c] (x # xs) = x @ c # join_with [c] xs"
      by (simp add: join_with_Cons)
    moreover have "split_char c (join_with [c] xs) = xs"
      using Cons.IH False Cons.prems(2) by simp
    ultimately show ?thesis
      using Cons.prems(2) by (simp add: split_char_append_sep split_char_no_sep)
  qed
qed

lemma normalizeString_snoc:
  assumes "n \<noteq> []" "n \<noteq> ''.''" "n \<noteq> ''..''"
  shows "normalizeString a (segs @ [n]) = normalizeString a segs @ [n]"
  using assms by (simp add: normalizeString_def normalizeString_step_def)

lemma normalizeString_step_segments:
  assumes "\<And>x. x \<in> set res \<Longrightarrow> x \<noteq> [] \<and> x \<noteq> ''.'' \<and> (x = ''..'' \<or> x \<in> S)"
    and "seg \<in> S"
    and "x \<in> set (normalizeString_step a res seg)"
  shows "x \<noteq> [] \<and> x \<noteq> ''.'' \<and> (x = ''..'' \<or> x \<in> S)"
  using assms
  by (auto simp: normalizeString_step_def split: if_splits dest: in_set_butlastD)

lemma foldl_normalizeString_segments:
  assumes "\<And>x. x \<in> set res \<Longrightarrow> x \<noteq> [] \<and> x \<noteq> ''.'' \<and> (x = ''..'' \<or> x \<in> S)"
    and "set segs \<subseteq> S"
    and "x \<in> set (foldl (normalizeString_step a) res segs)"
  shows "x \<noteq> [] \<and> x \<noteq> ''.'' \<and> (x = ''..'' \<or> x \<in> S)"
  using assms
proof (induction segs arbitrary: res)
  case Nil
  then show ?case by simp
next
  case (Cons seg segs)
  have "\<And>y. y \<in> set (normalizeString_step a res seg)
          \<Longrightarrow> y \<noteq> [] \<and> y \<noteq> ''.'' \<and> (y = ''..'' \<or> y \<in> S)"
    using normalizeString_step_segments [of res S seg _ a] Cons.prems(1,2) by simp
  then show ?case
    using Cons.IH [of "normalizeString_step a res seg"] Cons.prems(2,3) by simp
qed

lemma normal_segments_good:
  assumes "x \<in> set (normal_segments d)"
  shows "x \<noteq> []" and "x \<noteq> ''.''" and "CHR ''/'' \<notin> set x"
    and "x = ''..'' \<or> x \<in> set (split_char CHR ''/'' d)"
proof -
  have g: "x \<noteq> [] \<and> x \<noteq> ''.'' \<and> (x = ''..'' \<or> x \<in> set (split_char CHR ''/'' d))"
    using foldl_normalizeString_segments [of "[]" "set (split_char CHR ''/'' d)"
            "split_char CHR ''/'' d" x "\<not> isAbsolute d"] assms
    by (simp add: normal_segments_def normalizeString_def)
  then show "x \<noteq> []" "x \<noteq> ''.''" "x = ''..'' \<or> x \<in> set (split_char CHR ''/'' d)"
    by simp_all
  from g show "CHR ''/'' \<notin> set x"
    using split_char_segments [of x "CHR ''/''" d] by auto
qed

lemma plain_name_facts:
  assumes "plain_name n"
  shows "n \<noteq> []" "n \<noteq> ''.''" "n \<noteq> ''..''" "CHR ''/'' \<notin> set n" "\<not> has_nul n"
    "\<not> isAbsolute n" "\<not> trailingSeparator n"
proof -
  from assms show "n \<noteq> []" "n \<noteq> ''.''" "n \<noteq> ''..''" "CHR ''/'' \<notin> set n" "\<not> has_nul n"
    by (simp_all add: plain_name_def has_nul_def)
  from assms show "\<not> isAbsolute n"
    by (cases n) (auto simp: plain_name_def isAbsolute_def)
  from assms have ne: "n \<noteq> []" and ns: "CHR ''/'' \<notin> set n"
    by (simp_all add: plain_name_def)
  from ne have "last n \<in> set n" by (rule last_in_set)
  with ns have "last n \<noteq> CHR ''/''" by metis
  with ne have "n \<noteq> []" "last n \<noteq> CHR ''/''" by simp_all
  then show "\<not> trailingSeparator n"
    by (simp add: trailingSeparator_def)
qed

lemma isAbsolute_append: "d \<noteq> [] \<Longrightarrow> isAbsolute (d @ t) = isAbsolute d"
  by (cases d) (auto simp: isAbsolute_def)

lemma trailingSeparator_append: "t \<noteq> [] \<Longrightarrow> trailingSeparator (d @ t) = trailingSeparator t"
  by (simp add: trailingSeparator_def)

lemma normal_segments_Nil: "normal_segments [] = []"
  by (simp add: normal_segments_def normalizeString_def normalizeString_step_def)

text \<open>The path that \<open>path.join\<close> makes of a directory path and plain names.\<close>

lemma path_normalize_snoc:
  assumes "plain_name n" "d \<noteq> []"
  shows "path_normalize (d @ ''/'' @ n) = root_prefix d @ join_with ''/'' (normal_segments d @ [n])"
proof -
  note n = plain_name_facts [OF assms(1)]
  define p where "p = d @ ''/'' @ n"
  have ne: "p \<noteq> []" by (simp add: p_def)
  have abs: "isAbsolute p = isAbsolute d"
    unfolding p_def using assms(2) by (rule isAbsolute_append)
  have tr: "\<not> trailingSeparator p"
    using n(1,7) by (simp add: p_def trailingSeparator_def)
  have sp: "split_char CHR ''/'' p = split_char CHR ''/'' d @ [n]"
    using n(4) by (simp add: p_def split_char_append_sep split_char_no_sep)
  have ns: "normalizeString (\<not> isAbsolute d) (split_char CHR ''/'' p) = normal_segments d @ [n]"
    unfolding sp normal_segments_def using n(1,2,3) by (rule normalizeString_snoc)
  have "path_normalize p = root_prefix d @ join_with ''/'' (normal_segments d @ [n])"
    using ne tr by (simp add: path_normalize_def abs ns root_prefix_def)
  then show ?thesis by (simp only: p_def)
qed

lemma path_join_two:
  assumes "plain_name n"
  shows "path_join [d, n] = root_prefix d @ join_with ''/'' (normal_segments d @ [n])"
proof (cases "d = []")
  case True
  note n = plain_name_facts [OF assms]
  have "normalizeString True (split_char CHR ''/'' n) = [n]"
    using n by (simp add: split_char_no_sep normalizeString_def normalizeString_step_def)
  then have "path_normalize n = n"
    using n by (simp add: path_normalize_def)
  with True n show ?thesis
    by (simp add: path_join_def normal_segments_Nil root_prefix_def isAbsolute_def)
next
  case False
  with assms have "path_join [d, n] = path_normalize (d @ ''/'' @ n)"
    by (simp add: path_join_def plain_name_def)
  with path_normalize_snoc [OF assms False] show ?thesis by simp
qed


lemma path_join_one:
  "path_join [d] =
     (if normal_segments d = [] then
        (if isAbsolute d then ''/'' else if trailingSeparator d then ''./'' else ''.'')
      else root_prefix d @ join_with ''/'' (normal_segments d)
           @ (if trailingSeparator d then ''/'' else []))"
proof (cases "d = []")
  case True
  then show ?thesis
    by (simp add: path_join_def normal_segments_Nil isAbsolute_def trailingSeparator_def)
next
  case False
  then show ?thesis
    by (simp add: path_join_def path_normalize_def normal_segments_def root_prefix_def Let_def)
qed

lemma join_with_nonempty:
  "xs \<noteq> [] \<Longrightarrow> (\<And>x. x \<in> set xs \<Longrightarrow> x \<noteq> []) \<Longrightarrow> join_with sep xs \<noteq> []"
  by (induction sep xs rule: join_with.induct) auto

lemma join_with_hd:
  "xs \<noteq> [] \<Longrightarrow> hd xs \<noteq> [] \<Longrightarrow> \<exists>t. join_with sep xs = hd (hd xs) # t"
proof (induction sep xs rule: join_with.induct)
  case (2 sep x)
  then show ?case by (cases x) auto
next
  case (3 sep x y ys)
  then show ?case by (cases x) auto
qed simp

lemma set_join_with:
  "c \<notin> set sep \<Longrightarrow> c \<in> set (join_with sep xs) \<longleftrightarrow> (\<exists>x\<in>set xs. c \<in> set x)"
  by (induction sep xs rule: join_with.induct) auto

lemma prefixed_nonempty:
  assumes "R \<noteq> []" "\<And>x. x \<in> set R \<Longrightarrow> x \<noteq> []"
  shows "root_prefix d @ join_with ''/'' R \<noteq> []"
  using join_with_nonempty [OF assms] by simp

lemma prefixed_isAbsolute:
  assumes "R \<noteq> []" "\<And>x. x \<in> set R \<Longrightarrow> x \<noteq> [] \<and> CHR ''/'' \<notin> set x"
  shows "isAbsolute (root_prefix d @ join_with ''/'' R) = isAbsolute d"
proof (cases "isAbsolute d")
  case True
  then show ?thesis by (simp add: root_prefix_def isAbsolute_def)
next
  case False
  from assms have h: "hd R \<noteq> []" "CHR ''/'' \<notin> set (hd R)"
    by (cases R; simp)+
  then have "hd (hd R) \<noteq> CHR ''/''"
    by (cases "hd R") auto
  moreover obtain t where "join_with ''/'' R = hd (hd R) # t"
    using join_with_hd [OF assms(1) h(1)] by blast
  ultimately show ?thesis
    using False by (simp add: root_prefix_def isAbsolute_def)
qed

lemma prefixed_split:
  assumes "R \<noteq> []" "\<And>x. x \<in> set R \<Longrightarrow> CHR ''/'' \<notin> set x"
  shows "split_char CHR ''/'' (root_prefix d @ join_with ''/'' R) = lead d @ R"
  using split_char_join [of R "CHR ''/''"] assms
  by (simp add: root_prefix_def lead_def)

lemma prefixed_has_nul:
  "has_nul (root_prefix d @ join_with ''/'' R) \<longleftrightarrow> (\<exists>x\<in>set R. has_nul x)"
  using set_join_with [of "CHR 0x00" "''/''" R]
  by (auto simp: has_nul_def root_prefix_def)

lemma segments_snoc_good:
  assumes "plain_name n" "x \<in> set (normal_segments d @ [n])"
  shows "x \<noteq> [] \<and> CHR ''/'' \<notin> set x"
  using assms normal_segments_good(1,3) [of x d] plain_name_facts(1,4) [OF assms(1)]
  by auto

lemma folder_path:
  assumes "plain_name n"
  shows "split_char CHR ''/'' (path_join [d, n]) = lead d @ normal_segments d @ [n]"
    and "isAbsolute (path_join [d, n]) = isAbsolute d"
    and "path_join [d, n] \<noteq> []"
    and "has_nul (path_join [d, n]) \<longleftrightarrow> (\<exists>x\<in>set (normal_segments d). has_nul x)"
proof -
  let ?R = "normal_segments d @ [n]"
  have ne: "?R \<noteq> []" by simp
  have good: "\<And>x. x \<in> set ?R \<Longrightarrow> x \<noteq> [] \<and> CHR ''/'' \<notin> set x"
    using segments_snoc_good [OF assms] by blast
  show "split_char CHR ''/'' (path_join [d, n]) = lead d @ normal_segments d @ [n]"
    unfolding path_join_two [OF assms] using prefixed_split [OF ne] good by blast
  show "isAbsolute (path_join [d, n]) = isAbsolute d"
    unfolding path_join_two [OF assms] using prefixed_isAbsolute [OF ne] good by blast
  show "path_join [d, n] \<noteq> []"
    unfolding path_join_two [OF assms] using prefixed_nonempty [OF ne] good by blast
  show "has_nul (path_join [d, n]) \<longleftrightarrow> (\<exists>x\<in>set (normal_segments d). has_nul x)"
    unfolding path_join_two [OF assms] prefixed_has_nul
    using plain_name_facts(5) [OF assms] by auto
qed



lemma root_path:
  shows "\<exists>pre post. split_char CHR ''/'' (path_join [d]) = pre @ normal_segments d @ post
           \<and> set pre \<subseteq> {[], ''.''} \<and> set post \<subseteq> {[], ''.''}"
    and "isAbsolute (path_join [d]) = isAbsolute d"
    and "path_join [d] \<noteq> []"
    and "has_nul (path_join [d]) \<longleftrightarrow> (\<exists>x\<in>set (normal_segments d). has_nul x)"
proof -
  let ?R = "normal_segments d"
  have good: "\<And>x. x \<in> set ?R \<Longrightarrow> x \<noteq> [] \<and> CHR ''/'' \<notin> set x"
    using normal_segments_good(1,3) by blast
  show "\<exists>pre post. split_char CHR ''/'' (path_join [d]) = pre @ ?R @ post
           \<and> set pre \<subseteq> {[], ''.''} \<and> set post \<subseteq> {[], ''.''}"
  proof (cases "?R = []")
    case True
    then have "split_char CHR ''/'' (path_join [d]) \<in> {[[], []], [''.'', []], [''.'']}"
      by (simp add: path_join_one)
    then have "set (split_char CHR ''/'' (path_join [d])) \<subseteq> {[], ''.''}"
      by auto
    then show ?thesis
      using True by (intro exI [of _ "[]"] exI [of _ "split_char CHR ''/'' (path_join [d])"]) simp
  next
    case False
    have s: "split_char CHR ''/'' (root_prefix d @ join_with ''/'' ?R) = lead d @ ?R"
      using prefixed_split [OF False] good by blast
    have "split_char CHR ''/'' (path_join [d])
            = lead d @ ?R @ (if trailingSeparator d then [[]] else [])"
    proof (cases "trailingSeparator d")
      case True
      have "split_char CHR ''/'' ((root_prefix d @ join_with ''/'' ?R) @ CHR ''/'' # [])
              = split_char CHR ''/'' (root_prefix d @ join_with ''/'' ?R) @ split_char CHR ''/'' []"
        by (rule split_char_append_sep)
      with True False s show ?thesis by (simp add: path_join_one)
    next
      case False
      with \<open>?R \<noteq> []\<close> s show ?thesis by (simp add: path_join_one)
    qed
    moreover have "set (lead d) \<subseteq> {[], ''.''}"
      and "set (if trailingSeparator d then [[]] else []) \<subseteq> {[], ''.''}"
      by (auto simp: lead_def)
    ultimately show ?thesis by blast
  qed
  show "isAbsolute (path_join [d]) = isAbsolute d"
  proof (cases "?R = []")
    case True
    then show ?thesis by (simp add: path_join_one isAbsolute_def)
  next
    case False
    have "isAbsolute ((root_prefix d @ join_with ''/'' ?R) @ t) = isAbsolute d" for t
      using prefixed_isAbsolute [OF False, of d] prefixed_nonempty [OF False, of d] good
        isAbsolute_append by metis
    with False show ?thesis by (simp add: path_join_one)
  qed
  show "path_join [d] \<noteq> []"
    using prefixed_nonempty [of ?R d] good by (auto simp: path_join_one)
  show "has_nul (path_join [d]) \<longleftrightarrow> (\<exists>x\<in>set ?R. has_nul x)"
  proof (cases "?R = []")
    case True
    then show ?thesis by (simp add: path_join_one has_nul_def)
  next
    case False
    have n: "has_nul (a @ t) \<longleftrightarrow> has_nul a \<or> has_nul t" for a t
      by (auto simp: has_nul_def)
    have "\<not> has_nul ''/''" "\<not> has_nul []"
      by (simp_all add: has_nul_def)
    then have "has_nul (root_prefix d @ join_with ''/'' ?R @ (if trailingSeparator d then ''/'' else []))
          \<longleftrightarrow> (\<exists>x\<in>set ?R. has_nul x)"
      using prefixed_has_nul [of d ?R] n [of "root_prefix d @ join_with ''/'' ?R"] by auto
    with False show ?thesis by (simp only: path_join_one if_False)
  qed
qed

lemma walk_stay:
  "set st \<subseteq> {[], ''.''} \<Longrightarrow> fs cur = Some Directory \<Longrightarrow> walk fs cur st = Inr cur"
  by (induction st) auto


lemma walk_dir_start:
  "walk fs cur segs = Inr c \<Longrightarrow> segs \<noteq> [] \<Longrightarrow> fs cur = Some Directory"
  by (cases segs) (auto split: option.splits node.splits)

lemma walk_Inr_appendD:
  assumes "walk fs cur (xs @ ys) = Inr c"
  obtains b where "walk fs cur xs = Inr b" "walk fs b ys = Inr c"
  using assms by (auto simp: walk_append split: sum.splits)

lemma start_of_root: "start_of w (path_join [d]) = start_of w d"
  by (simp add: start_of_def root_path(2))


lemma root_is_directory:
  assumes "walk (entries w) (start_of w d) (normal_segments d) = Inr c"
    and "entries w c = Some Directory"
    and "\<And>x. x \<in> set (normal_segments d) \<Longrightarrow> \<not> has_nul x"
  shows "is_directory w (path_join [d])"
proof -
  obtain pre post where sp:
    "split_char CHR ''/'' (path_join [d]) = pre @ normal_segments d @ post"
    "set pre \<subseteq> {[], ''.''}" "set post \<subseteq> {[], ''.''}"
    using root_path(1) by blast
  have st: "entries w (start_of w d) = Some Directory"
  proof (cases "normal_segments d = []")
    case True
    with assms(1,2) show ?thesis by simp
  next
    case False
    with walk_dir_start [OF assms(1)] show ?thesis by simp
  qed
  have "walk (entries w) (start_of w d) (pre @ normal_segments d @ post) = Inr c"
    using walk_stay [of pre "entries w" "start_of w d", OF sp(2) st] assms(1)
      walk_stay [of post "entries w" c, OF sp(3) assms(2)]
    by (simp add: walk_append)
  then have "locate w (path_join [d]) = Inr c"
    by (simp add: locate_def root_path(3) start_of_root sp(1))
  then show ?thesis
    using assms(2,3) root_path(4) [of d] by (auto simp: is_directory_def node_at_def)
qed

section \<open>The file writer and the directories\<close>

lemma strip_trailing_id: "segs \<noteq> [] \<Longrightarrow> last segs \<noteq> [] \<Longrightarrow> strip_trailing segs = segs"
  by (cases segs rule: rev_cases) (simp_all add: strip_trailing_def)



lemma walk_lead:
  "entries w (start_of w d) = Some Directory
     \<Longrightarrow> walk (entries w) (start_of w d) (lead d) = Inr (start_of w d)"
  by (simp add: lead_def)

lemma walk_lead_Inr:
  "walk (entries w) (start_of w d) (lead d) = Inr a \<Longrightarrow> a = start_of w d"
  by (auto simp: lead_def split: if_splits option.splits node.splits)

lemma start_of_folder:
  "plain_name n \<Longrightarrow> start_of w (path_join [d, n]) = start_of w d"
  by (simp add: start_of_def folder_path(2))



lemma walk_folder_segmentsD:
  assumes "plain_name n"
    and "walk (entries w) (start_of w d) (lead d @ normal_segments d @ [n]) = Inr loc"
  obtains c where "walk (entries w) (start_of w d) (normal_segments d) = Inr c"
    and "entries w c = Some Directory" and "loc = c @ [n]"
proof -
  note n = plain_name_facts [OF assms(1)]
  from assms(2) obtain a where a: "walk (entries w) (start_of w d) (lead d) = Inr a"
    and r: "walk (entries w) a (normal_segments d @ [n]) = Inr loc"
    by (rule walk_Inr_appendD)
  from r obtain c where c: "walk (entries w) a (normal_segments d) = Inr c"
    and l: "walk (entries w) c [n] = Inr loc"
    by (rule walk_Inr_appendD)
  from l n(1,2,3) have "entries w c = Some Directory" "loc = c @ [n]"
    by (auto split: option.splits node.splits)
  with c walk_lead_Inr [OF a] that show ?thesis by simp
qed

lemma walk_root_segments:
  assumes "walk (entries w) (start_of w d) (normal_segments d) = Inr c"
    and "entries w c = Some Directory"
  shows "walk (entries w) (start_of w d) (lead d @ normal_segments d) = Inr c"
proof -
  have st: "entries w (start_of w d) = Some Directory"
  proof (cases "normal_segments d = []")
    case True
    with assms show ?thesis by simp
  next
    case False
    with walk_dir_start [OF assms(1)] show ?thesis by simp
  qed
  show ?thesis
    using walk_lead [OF st] assms(1) by (simp only: walk_append sum.case)
qed

lemma existsSync_cong:
  "entries v = entries w \<Longrightarrow> cwd v = cwd w \<Longrightarrow> fst (existsSync p v) = fst (existsSync p w)"
  by (simp add: existsSync_def node_at_def locate_cong [of v w] split: sum.splits)

text \<open>When the root does not exist, neither does the folder, and it cannot be made.\<close>

lemma folder_needs_root:
  assumes "plain_name n"
    and "\<not> has_nul (path_join [d, n])"
    and "walk (entries w) (start_of w d) (lead d @ normal_segments d) = Inr c"
    and "entries w c = Some Directory"
  shows "fst (existsSync (path_join [d]) w)"
proof -
  from assms(3) obtain a where a: "walk (entries w) (start_of w d) (lead d) = Inr a"
    and r: "walk (entries w) a (normal_segments d) = Inr c"
    by (rule walk_Inr_appendD)
  have r': "walk (entries w) (start_of w d) (normal_segments d) = Inr c"
    using r walk_lead_Inr [OF a] by simp
  have "\<And>x. x \<in> set (normal_segments d) \<Longrightarrow> \<not> has_nul x"
    using assms(2) folder_path(4) [OF assms(1), of d] by blast
  from root_is_directory [OF r' assms(4) this] show ?thesis
    by (simp add: existsSync_def is_directory_def)
qed

lemma missing_root_no_folder:
  assumes "plain_name n" "\<not> fst (existsSync (path_join [d]) w)"
  shows "\<not> fst (existsSync (path_join [d, n]) w)"
proof
  assume "fst (existsSync (path_join [d, n]) w)"
  then obtain loc where nn: "\<not> has_nul (path_join [d, n])"
    and l: "locate w (path_join [d, n]) = Inr loc"
    by (auto simp: existsSync_fst)
  from l have "walk (entries w) (start_of w d) (lead d @ normal_segments d @ [n]) = Inr loc"
    using assms(1) by (simp add: locate_def folder_path start_of_folder)
  from walk_folder_segmentsD [OF assms(1) this]
  obtain c where c: "walk (entries w) (start_of w d) (normal_segments d) = Inr c"
    "entries w c = Some Directory"
    by blast
  from folder_needs_root [OF assms(1) nn walk_root_segments [OF c] c(2)] assms(2)
  show False by simp
qed

lemma missing_root_no_mkdir:
  assumes "plain_name n" "\<not> fst (existsSync (path_join [d]) w)"
    and "entries w1 = entries w" "cwd w1 = cwd w"
  shows "mkdirSync (path_join [d, n]) w1 \<noteq> (Inr u, w2)"
proof
  note n = plain_name_facts [OF assms(1)]
  let ?p = "path_join [d, n]"
  let ?segs = "lead d @ normal_segments d @ [n]"
  assume "mkdirSync ?p w1 = (Inr u, w2)"
  then obtain parent where h: "\<not> has_nul ?p"
    "walk (entries w1) (start_of w1 ?p) (butlast (strip_trailing (split_char CHR ''/'' ?p))) = Inr parent"
    "entries w1 parent = Some Directory"
    by (rule mkdirSync_Inr)
  have "strip_trailing ?segs = ?segs"
    using n(1) by (intro strip_trailing_id) simp_all
  moreover have "butlast ?segs = lead d @ normal_segments d"
    by (simp add: butlast_append)
  moreover have "start_of w1 ?p = start_of w d"
    using assms(1,4) by (simp add: start_of_def folder_path(2))
  ultimately have "walk (entries w) (start_of w d) (lead d @ normal_segments d) = Inr parent"
    using h(2) assms(3) by (simp add: folder_path(1) [OF assms(1)])
  from folder_needs_root [OF assms(1) h(1) this] h(3) assms(2,3)
  show False by simp
qed

text \<open>
  Claim C8, as amended. If the root directory, \<open>dirPath\<close> as \<open>path.join\<close>
  normalises it, does not exist and \<open>databaseName\<close> is a plain name, then
  \<open>writeJsonFiles\<close> returns \<open>false\<close> and creates nothing: the file system is as
  before, the root still does not exist, and the only creation attempted is
  \<open>mkdirSync\<close> of the subdirectory, which is not recursive and fails.
\<close>

theorem writeJsonFiles_missing_root:
  assumes "plain_name (databaseName args)"
    and "\<not> fst (existsSync (path_join [dirPath args]) w)"
  shows "\<exists>w'. writeJsonFiles args w = Inr (ReturnedFalse, w') \<and> entries w' = entries w
           \<and> \<not> fst (existsSync (path_join [dirPath args]) w')
           \<and> (fs_calls w' = fs_calls w
                \<or> fs_calls w' = fs_calls w @ [ExistsSync (folderPath_of args),
                                                MkdirSync (folderPath_of args)])"
proof -
  let ?folder = "folderPath_of args"
  let ?w1 = "snd (existsSync ?folder w)"
  obtain r w1 where t: "writeJsonFiles_try args w = (r, w1)"
    by (cases "writeJsonFiles_try args w")
  have nf: "\<not> fst (existsSync ?folder w)"
    unfolding folderPath_of_def using assms by (rule missing_root_no_folder)
  have nm: "mkdirSync ?folder ?w1 \<noteq> (Inr u, w2)" for u w2
    unfolding folderPath_of_def
    using missing_root_no_mkdir [OF assms, of "snd (existsSync (path_join [dirPath args, databaseName args]) w)"]
    by simp
  from t have "\<exists>e. r = Inl e \<and> entries w1 = entries w \<and> cwd w1 = cwd w
      \<and> (fs_calls w1 = fs_calls w
            \<or> fs_calls w1 = fs_calls w @ [ExistsSync ?folder, MkdirSync ?folder])"
  proof (cases rule: writeJsonFiles_try_cases)
    case (serialize e)
    then show ?thesis by simp
  next
    case (present d wr)
    with nf show ?thesis by simp
  next
    case (mkdir_failed d e)
    from mkdirSync_effect [OF mkdir_failed(3)] mkdir_failed(4) show ?thesis
      by auto
  next
    case (created d w2 wr)
    with nm [of "()" w2] show ?thesis by simp
  qed
  then obtain e where e: "r = Inl e" "entries w1 = entries w" "cwd w1 = cwd w"
    "fs_calls w1 = fs_calls w \<or> fs_calls w1 = fs_calls w @ [ExistsSync ?folder, MkdirSync ?folder]"
    by blast
  have "writeJsonFiles args w = Inr (ReturnedFalse, console_error e w1)"
    using t e(1) by (simp add: writeJsonFiles_def)
  moreover have "\<not> fst (existsSync (path_join [dirPath args]) (console_error e w1))"
    using assms(2) e(2,3)
      existsSync_cong [of "console_error e w1" w "path_join [dirPath args]"] by simp
  ultimately show ?thesis
    using e by (intro exI [of _ "console_error e w1"]) simp
qed









lemmas run_defs =
  writeJsonFiles_def writeJsonFiles_try_def folderPath_of_def finalFilePath_of_def
  path_join_def path_normalize_def normalizeString_def normalizeString_step_def
  isAbsolute_def trailingSeparator_def existsSync_def mkdirSync_def writeFileSync_def
  node_at_def locate_def start_of_def has_nul_def strip_trailing_def console_log_def
  console_error_def example_world_def Let_def



theorem writeJsonFiles_missing_root_witness:
  "plain_name ''shop'' \<and> \<not> fst (existsSync (path_join [''backup'']) example_world)
   \<and> (\<exists>w'. writeJsonFiles (example_args\<lparr>dirPath := ''backup''\<rparr>) example_world
               = Inr (ReturnedFalse, w')
          \<and> entries w' = entries example_world
          \<and> fs_calls w' = [ExistsSync ''backup/shop'', MkdirSync ''backup/shop''])"
proof -
  have p: "plain_name (databaseName (example_args\<lparr>dirPath := ''backup''\<rparr>))"
    by (simp add: example_args_def plain_name_def)
  have r: "\<not> fst (existsSync (path_join [dirPath (example_args\<lparr>dirPath := ''backup''\<rparr>)])
                   example_world)"
    by (simp add: run_defs)
  have s: "JSON_stringify (dataToWrite (example_args\<lparr>dirPath := ''backup''\<rparr>)) 2
             = Inr (Some example_payload)"
    by (simp add: example_args_def example_stringify)
  have f: "folderPath_of (example_args\<lparr>dirPath := ''backup''\<rparr>) = ''backup/shop''"
    by (simp add: example_args_def run_defs)
  from writeJsonFiles_missing_root [OF p r] obtain w' where w':
    "writeJsonFiles (example_args\<lparr>dirPath := ''backup''\<rparr>) example_world = Inr (ReturnedFalse, w')"
    "entries w' = entries example_world"
    "fs_calls w' = fs_calls example_world
       \<or> fs_calls w' = fs_calls example_world @ [ExistsSync ''backup/shop'', MkdirSync ''backup/shop'']"
    unfolding f by blast
  from writeJsonFiles_false [OF w'(1)] example_run_no_root
  have "fs_calls w' = [ExistsSync ''backup/shop'', MkdirSync ''backup/shop'']"
    by auto
  with w' p r show ?thesis
    by (auto simp: example_args_def)
qed

text \<open>
  The claim C8 as it is stated fails for an empty \<open>databaseName\<close>: the subdirectory
  path is then the root itself, which \<open>mkdirSync\<close> creates, and the call returns the
  path of the written file.
\<close>

theorem writeJsonFiles_missing_root_counterexample:
  "\<not> fst (existsSync ''backup'' example_world)
   \<and> path_join [''backup''] = ''backup'' \<and> path_join [''backup'', ''''] = ''backup''
   \<and> writeJsonFiles (example_args\<lparr>dirPath := ''backup'', databaseName := ''''\<rparr>) example_world
       = Inr (ReturnedPath ''backup/users.json'',
              example_world
                \<lparr> entries := (entries example_world)
                     ([''home'', ''backup''] \<mapsto> Directory,
                      [''home'', ''backup'', ''users.json''] \<mapsto> RegularFile example_payload),
                  console := [ConsoleLog (directory_created 1234567 ''backup'')],
                  fs_calls := [ExistsSync ''backup'', MkdirSync ''backup'',
                               WriteFileSync ''backup/users.json'' (Some example_payload)] \<rparr>)"
  by (simp add: run_defs example_args_def example_stringify)



section \<open>Reading back what \<open>JSON.stringify\<close> wrote\<close>




























lemma skip_ws_Nil: "skip_ws [] = []"
  by (simp add: skip_ws_def)

























lemma ws_newline: "list_all is_json_ws x \<Longrightarrow> list_all is_json_ws (CHR 0x0A # x)"
  by (simp add: is_json_ws_def)












end
